theory Spec2Isabelle
  imports Main
begin

section \<open>The runtime environment of the generator\<close>

text \<open>
  The generator (generate-data.js) draws every random choice from the faker library and
  reads the system clock. Both are external to the program, so they are an explicit input
  here: \<open>draws\<close> is the sequence of raw random numbers still to be consumed and
  \<open>clock\<close> the sequence of instants (milliseconds since the epoch) that the coming
  reads of the clock return. Every theorem quantifies over all such sequences, hence over
  every outcome a run can have.
\<close>

record world =
  draws :: "nat \<Rightarrow> nat"
  clock :: "nat \<Rightarrow> int"

datatype js_error = FakerError | Error string

definition draw :: "world \<Rightarrow> nat \<times> world" where
  "draw w = (draws w 0, w\<lparr>draws := (\<lambda>n. draws w (Suc n))\<rparr>)"

text \<open>\<open>new Date()\<close>: the current instant.\<close>

definition Date_now :: "world \<Rightarrow> int \<times> world" where
  "Date_now w = (clock w 0, w\<lparr>clock := (\<lambda>n. clock w (Suc n))\<rparr>)"

text \<open>
  \<open>faker.number.int({ min, max })\<close> returns an integer of the closed range and throws
  when the range is empty. Any member of the range can come out: it is fixed by the raw draw.
\<close>

definition faker_number_int :: "int \<Rightarrow> int \<Rightarrow> world \<Rightarrow> js_error + (int \<times> world)" where
  "faker_number_int lo hi w =
     (if hi < lo then Inl FakerError
      else (case draw w of (d, w') \<Rightarrow> Inr (lo + int d mod (hi - lo + 1), w')))"

text \<open>
  \<open>faker.helpers.arrayElement(array)\<close> returns one element of the array and throws on an
  empty array. The elements of \<open>orders\<close> are objects that the caller mutates, so the
  position of the chosen element is what the model keeps (\<open>arrayIndex\<close>).
\<close>

definition arrayIndex :: "'a list \<Rightarrow> world \<Rightarrow> js_error + (nat \<times> world)" where
  "arrayIndex xs w =
     (if xs = [] then Inl FakerError
      else (case draw w of (d, w') \<Rightarrow> Inr (d mod length xs, w')))"

definition arrayElement :: "'a list \<Rightarrow> world \<Rightarrow> js_error + ('a \<times> world)" where
  "arrayElement xs w =
     (case arrayIndex xs w of Inl e \<Rightarrow> Inl e | Inr (i, w') \<Rightarrow> Inr (xs ! i, w'))"

text \<open>
  \<open>faker.date.between({ from, to })\<close>: an instant of the closed interval, drawn as an
  integer number of milliseconds.
\<close>

definition faker_date_between :: "int \<Rightarrow> int \<Rightarrow> world \<Rightarrow> js_error + (int \<times> world)" where
  "faker_date_between from to w = faker_number_int from to w"

text \<open>
  JavaScript numbers are IEEE doubles. Their operations are not defined here: the ones the
  generator uses are parameters (\<open>Number(s)\<close>, the conversion of an integer, \<open>+\<close>,
  \<open>*\<close> and \<open>x.toFixed(digits)\<close>), so what is proved holds whatever they compute,
  in particular for the real arithmetic of the language.
\<close>

record 'n numbers =
  Number :: "string \<Rightarrow> 'n"
  num_of_int :: "int \<Rightarrow> 'n"
  num_add :: "'n \<Rightarrow> 'n \<Rightarrow> 'n"
  num_mul :: "'n \<Rightarrow> 'n \<Rightarrow> 'n"
  toFixed :: "'n \<Rightarrow> nat \<Rightarrow> string"

text \<open>
  Dates are instants in milliseconds. The text of a timestamp (type \<open>'d\<close>) is written by
  \<open>date.toISOString()\<close> and read back by \<open>new Date(text)\<close>; \<open>minus_one_year\<close>
  is \<open>date.setFullYear(date.getFullYear() - 1)\<close>. These calendar functions are
  parameters as well.
\<close>

record 'd dates =
  toISOString :: "int \<Rightarrow> 'd"
  new_Date :: "'d \<Rightarrow> int"
  minus_one_year :: "int \<Rightarrow> int"

section \<open>The data model\<close>

record product =
  product_id :: int
  product_name :: string
  category :: string
  price :: string
  stock_quantity :: int

text \<open>
  \<open>total_amount\<close> is a number while the items are being assigned and a text of two
  decimals once generateOrderItems has finished; the type parameter \<open>'t\<close> tells which.
\<close>

record ('d, 't) order =
  order_id :: int
  customer_id :: int
  order_date :: 'd
  total_amount :: 't

record order_item =
  order_item_id :: int
  oi_order_id :: int
  oi_product_id :: int
  quantity :: int
  unit_price :: string

record 'd payment =
  payment_id :: int
  pay_order_id :: int
  payment_method :: string
  payment_status :: string
  payment_date :: 'd

section \<open>Array helpers\<close>

text \<open>
  \<open>Array.from({ length: n }, (_, idx) => f(idx))\<close> and \<open>array.map((x, idx) => f(x, idx))\<close>
  call \<open>f\<close> for ascending indices; an exception thrown by one call ends the whole
  expression.
\<close>

fun Array_from_loop ::
  "(nat \<Rightarrow> world \<Rightarrow> js_error + ('a \<times> world)) \<Rightarrow> nat \<Rightarrow> nat \<Rightarrow> world \<Rightarrow> js_error + ('a list \<times> world)"
where
  "Array_from_loop f idx 0 w = Inr ([], w)"
| "Array_from_loop f idx (Suc n) w =
     (case f idx w of
        Inl e \<Rightarrow> Inl e
      | Inr (x, w') \<Rightarrow>
          (case Array_from_loop f (Suc idx) n w' of
             Inl e \<Rightarrow> Inl e
           | Inr (xs, w'') \<Rightarrow> Inr (x # xs, w'')))"

definition Array_from ::
  "int \<Rightarrow> (nat \<Rightarrow> world \<Rightarrow> js_error + ('a \<times> world)) \<Rightarrow> world \<Rightarrow> js_error + ('a list \<times> world)"
where
  "Array_from len f w = Array_from_loop f 0 (nat len) w"

fun Array_map_loop ::
  "('a \<Rightarrow> nat \<Rightarrow> world \<Rightarrow> js_error + ('b \<times> world)) \<Rightarrow> nat \<Rightarrow> 'a list \<Rightarrow> world \<Rightarrow> js_error + ('b list \<times> world)"
where
  "Array_map_loop f idx [] w = Inr ([], w)"
| "Array_map_loop f idx (x # xs) w =
     (case f x idx w of
        Inl e \<Rightarrow> Inl e
      | Inr (y, w') \<Rightarrow>
          (case Array_map_loop f (Suc idx) xs w' of
             Inl e \<Rightarrow> Inl e
           | Inr (ys, w'') \<Rightarrow> Inr (y # ys, w'')))"

definition Array_map ::
  "('a \<Rightarrow> nat \<Rightarrow> world \<Rightarrow> js_error + ('b \<times> world)) \<Rightarrow> 'a list \<Rightarrow> world \<Rightarrow> js_error + ('b list \<times> world)"
where
  "Array_map f xs w = Array_map_loop f 0 xs w"

section \<open>generateOrders\<close>

text \<open>
  The arrow function that \<open>Array.from\<close> calls for the index \<open>idx\<close>;
  \<open>startDate\<close> is the variable of the enclosing function.
\<close>

definition generateOrders_entry ::
  "'n numbers \<Rightarrow> 'd dates \<Rightarrow> int \<Rightarrow> int \<Rightarrow> nat \<Rightarrow> world \<Rightarrow> js_error + (('d, 'n) order \<times> world)"
where
  "generateOrders_entry nm dt startDate customerCount idx w =
     (case Date_now w of (to, w1) \<Rightarrow>
        (case faker_date_between startDate to w1 of
           Inl e \<Rightarrow> Inl e
         | Inr (orderDate, w2) \<Rightarrow>
             (case faker_number_int 1 customerCount w2 of
                Inl e \<Rightarrow> Inl e
              | Inr (cid, w3) \<Rightarrow>
                  Inr (\<lparr>order_id = int idx + 1,
                        customer_id = cid,
                        order_date = toISOString dt orderDate,
                        total_amount = num_of_int nm 0\<rparr>, w3))))"

definition generateOrders ::
  "'n numbers \<Rightarrow> 'd dates \<Rightarrow> int \<Rightarrow> int \<Rightarrow> world \<Rightarrow> js_error + (('d, 'n) order list \<times> world)"
where
  "generateOrders nm dt count customerCount w =
     (case Date_now w of (today, w0) \<Rightarrow>
        let startDate = minus_one_year dt today in
        Array_from count (generateOrders_entry nm dt startDate customerCount) w0)"

section \<open>generateOrderItems\<close>

text \<open>
  The variables the closure \<open>addOrderItem\<close> and the two loops share: the items pushed
  so far, the array of orders (whose running totals are updated in place) and the counter
  of item ids.
\<close>

record ('d, 'n) items_state =
  orderItems :: "order_item list"
  orders_arr :: "('d, 'n) order list"
  nextOrderItemId :: int

text \<open>\<open>addOrderItem(order)\<close>, for the order at position \<open>i\<close> of the array.\<close>

definition addOrderItem ::
  "'n numbers \<Rightarrow> product list \<Rightarrow> nat \<Rightarrow> ('d, 'n) items_state \<Rightarrow> world
     \<Rightarrow> js_error + (('d, 'n) items_state \<times> world)"
where
  "addOrderItem nm products i st w =
     (case arrayElement products w of
        Inl e \<Rightarrow> Inl e
      | Inr (product, w1) \<Rightarrow>
          (case faker_number_int 1 5 w1 of
             Inl e \<Rightarrow> Inl e
           | Inr (qty, w2) \<Rightarrow>
               let unitPrice = Number nm (price product);
                   order = orders_arr st ! i;
                   orderItem = \<lparr>order_item_id = nextOrderItemId st,
                                oi_order_id = order_id order,
                                oi_product_id = product_id product,
                                quantity = qty,
                                unit_price = toFixed nm unitPrice 2\<rparr>
               in Inr (st\<lparr>orderItems := orderItems st @ [orderItem],
                          orders_arr := (orders_arr st)
                            [i := order\<lparr>total_amount :=
                               num_add nm (total_amount order)
                                 (num_mul nm (num_of_int nm qty) unitPrice)\<rparr>],
                          nextOrderItemId := nextOrderItemId st + 1\<rparr>, w2)))"

text \<open>
  The first loop, \<open>for (const order of orders)\<close>, over the positions still to visit.
\<close>

fun first_pass ::
  "'n numbers \<Rightarrow> product list \<Rightarrow> int \<Rightarrow> nat list \<Rightarrow> ('d, 'n) items_state \<Rightarrow> world
     \<Rightarrow> js_error + (('d, 'n) items_state \<times> world)"
where
  "first_pass nm products safeTargetCount [] st w = Inr (st, w)"
| "first_pass nm products safeTargetCount (i # rest) st w =
     (if int (length (orderItems st)) \<ge> safeTargetCount then Inr (st, w)
      else (case addOrderItem nm products i st w of
              Inl e \<Rightarrow> Inl e
            | Inr (st', w') \<Rightarrow> first_pass nm products safeTargetCount rest st' w'))"

lemma addOrderItem_length:
  "addOrderItem nm products i st w = Inr (st', w')
     \<Longrightarrow> length (orderItems st') = Suc (length (orderItems st))"
  by (auto simp: addOrderItem_def Let_def split: sum.splits prod.splits)

text \<open>The second loop, \<open>while (orderItems.length < safeTargetCount)\<close>.\<close>

function top_up ::
  "'n numbers \<Rightarrow> product list \<Rightarrow> int \<Rightarrow> ('d, 'n) items_state \<Rightarrow> world
     \<Rightarrow> js_error + (('d, 'n) items_state \<times> world)"
where
  "top_up nm products safeTargetCount st w =
     (if int (length (orderItems st)) < safeTargetCount then
        (case arrayIndex (orders_arr st) w of
           Inl e \<Rightarrow> Inl e
         | Inr (i, w1) \<Rightarrow>
             (case addOrderItem nm products i st w1 of
                Inl e \<Rightarrow> Inl e
              | Inr (st', w') \<Rightarrow> top_up nm products safeTargetCount st' w'))
      else Inr (st, w))"
  by pat_completeness auto
termination
proof (relation "measure (\<lambda>(nm, products, safeTargetCount, st, w).
                  nat (safeTargetCount - int (length (orderItems st))))", goal_cases)
  case 1
  show ?case by simp
next
  case (2 nm products safeTargetCount st w x2 i w1 x2a st' w')
  then show ?case by (auto dest: addOrderItem_length)
qed

declare top_up.simps [simp del]

definition generateOrderItems ::
  "'n numbers \<Rightarrow> ('d, 'n) order list \<Rightarrow> product list \<Rightarrow> int \<Rightarrow> world
     \<Rightarrow> js_error + (order_item list \<times> ('d, string) order list \<times> world)"
where
  "generateOrderItems nm orders products targetCount w =
     (let safeTargetCount = max targetCount (int (length orders));
          st0 = \<lparr>orderItems = [], orders_arr = orders, nextOrderItemId = 1\<rparr>
      in case first_pass nm products safeTargetCount [0..<length orders] st0 w of
           Inl e \<Rightarrow> Inl e
         | Inr (st1, w1) \<Rightarrow>
             (case top_up nm products safeTargetCount st1 w1 of
                Inl e \<Rightarrow> Inl e
              | Inr (st2, w2) \<Rightarrow>
                  Inr (orderItems st2,
                       map (\<lambda>order. \<lparr>order_id = order_id order,
                                      customer_id = customer_id order,
                                      order_date = order_date order,
                                      total_amount = toFixed nm (total_amount order) 2\<rparr>)
                           (orders_arr st2),
                       w2)))"

section \<open>generatePayments\<close>

definition paymentMethods :: "string list" where
  "paymentMethods = [''Credit Card'', ''Debit Card'', ''PayPal'', ''Bank Transfer'', ''Gift Card'']"

definition paymentStatuses :: "string list" where
  "paymentStatuses = [''Completed'', ''Pending'', ''Failed'']"

text \<open>The arrow function that \<open>orders.map\<close> calls for an order and its index.\<close>

definition generatePayments_entry ::
  "'d dates \<Rightarrow> ('d, 't) order \<Rightarrow> nat \<Rightarrow> world \<Rightarrow> js_error + ('d payment \<times> world)"
where
  "generatePayments_entry dt order idx w =
     (case arrayElement paymentStatuses w of
        Inl e \<Rightarrow> Inl e
      | Inr (status, w1) \<Rightarrow>
          let orderDate = new_Date dt (order_date order) in
          (case (if status = ''Pending'' then Inr (orderDate, w1)
                 else faker_date_between orderDate
                        (orderDate + 7 * 24 * 60 * 60 * 1000) w1) of
             Inl e \<Rightarrow> Inl e
           | Inr (paymentDate, w2) \<Rightarrow>
               (case arrayElement paymentMethods w2 of
                  Inl e \<Rightarrow> Inl e
                | Inr (paymentMethod, w3) \<Rightarrow>
                    Inr (\<lparr>payment_id = int idx + 1,
                          pay_order_id = order_id order,
                          payment_method = paymentMethod,
                          payment_status = status,
                          payment_date = toISOString dt paymentDate\<rparr>, w3))))"

definition generatePayments ::
  "'d dates \<Rightarrow> ('d, 't) order list \<Rightarrow> world \<Rightarrow> js_error + ('d payment list \<times> world)"
where
  "generatePayments dt orders w = Array_map (generatePayments_entry dt) orders w"
section \<open>Decimal numerals\<close>

text \<open>
  Texts are lists of 8-bit characters. The digit characters are \<open>0\<close> to \<open>9\<close>
  (codes 48 to 57).
\<close>

definition digit_char :: "nat \<Rightarrow> char" where
  "digit_char d = ''0123456789'' ! d"

definition is_digit :: "char \<Rightarrow> bool" where
  "is_digit c = (48 \<le> (of_char c :: nat) \<and> (of_char c :: nat) \<le> 57)"

definition digit_val :: "char \<Rightarrow> nat" where
  "digit_val c = of_char c - 48"

function string_of_nat :: "nat \<Rightarrow> string" where
  "string_of_nat n =
     (if n < 10 then [digit_char n]
      else string_of_nat (n div 10) @ [digit_char (n mod 10)])"
  by pat_completeness auto
termination
  by (relation "measure id") auto

declare string_of_nat.simps [simp del]

text \<open>The value of a run of digits, read from the left with the value so far.\<close>

fun nat_of_digits :: "nat \<Rightarrow> string \<Rightarrow> nat" where
  "nat_of_digits acc [] = acc"
| "nat_of_digits acc (c # cs) = nat_of_digits (10 * acc + digit_val c) cs"

section \<open>Notions used in the statements about the generator\<close>

definition item_added ::
  "'n numbers \<Rightarrow> product \<Rightarrow> int \<Rightarrow> nat \<Rightarrow> ('d, 'n) items_state \<Rightarrow> ('d, 'n) items_state"
where
  "item_added nm p q i st =
     st\<lparr>orderItems := orderItems st @
              [\<lparr>order_item_id = nextOrderItemId st,
                oi_order_id = order_id (orders_arr st ! i),
                oi_product_id = product_id p,
                quantity = q,
                unit_price = toFixed nm (Number nm (price p)) 2\<rparr>],
         orders_arr := (orders_arr st)
              [i := (orders_arr st ! i)\<lparr>total_amount :=
                 num_add nm (total_amount (orders_arr st ! i))
                   (num_mul nm (num_of_int nm q) (Number nm (price p)))\<rparr>],
         nextOrderItemId := nextOrderItemId st + 1\<rparr>"

definition line_total :: "'n numbers \<Rightarrow> 'n \<Rightarrow> order_item \<Rightarrow> 'n" where
  "line_total nm acc it =
     num_add nm acc (num_mul nm (num_of_int nm (quantity it)) (Number nm (unit_price it)))"

definition items_of :: "int \<Rightarrow> order_item list \<Rightarrow> order_item list" where
  "items_of oid items = filter (\<lambda>it. oi_order_id it = oid) items"

definition sum_items :: "'n numbers \<Rightarrow> int \<Rightarrow> order_item list \<Rightarrow> 'n" where
  "sum_items nm oid items = foldl (line_total nm) (num_of_int nm 0) (items_of oid items)"

definition finalized :: "'n numbers \<Rightarrow> ('d, 'n) order \<Rightarrow> ('d, string) order" where
  "finalized nm order =
     \<lparr>order_id = order_id order, customer_id = customer_id order,
      order_date = order_date order, total_amount = toFixed nm (total_amount order) 2\<rparr>"

definition start_state :: "('d, 'n) order list \<Rightarrow> ('d, 'n) items_state" where
  "start_state orders = \<lparr>orderItems = [], orders_arr = orders, nextOrderItemId = 1\<rparr>"

section \<open>A concrete runtime, to run the generator on examples\<close>

text \<open>
  An exact arithmetic on non-negative amounts counted in hundredths: \<open>Number\<close> reads a
  text such as \<open>12.50\<close> and \<open>toFixed\<close> writes one, with two decimals.
\<close>

definition cents_Number :: "string \<Rightarrow> int" where
  "cents_Number s =
     (let whole = takeWhile is_digit s;
          frac = drop (Suc (length whole)) s
      in int (100 * nat_of_digits 0 whole + nat_of_digits 0 (take 2 (frac @ ''00''))))"

definition cents_toFixed :: "int \<Rightarrow> nat \<Rightarrow> string" where
  "cents_toFixed c digits =
     string_of_nat (nat c div 100) @ ''.'' @
       [digit_char (nat c div 10 mod 10), digit_char (nat c mod 10)]"

definition cents :: "int numbers" where
  "cents = \<lparr>Number = cents_Number,
            num_of_int = (\<lambda>k. 100 * k),
            num_add = (\<lambda>a b. a + b),
            num_mul = (\<lambda>a b. a * b div 100),
            toFixed = cents_toFixed\<rparr>"

text \<open>Timestamps whose text is the number of milliseconds itself.\<close>

definition epoch_ms :: "int dates" where
  "epoch_ms = \<lparr>toISOString = (\<lambda>t. t),
               new_Date = (\<lambda>t. t),
               minus_one_year = (\<lambda>t. t - 365 * 24 * 60 * 60 * 1000)\<rparr>"

definition sample_world :: world where
  "sample_world = \<lparr>draws = (\<lambda>n. 7 * n + 3), clock = (\<lambda>n. 1700000000000 + int n)\<rparr>"

definition sample_products :: "product list" where
  "sample_products =
     [\<lparr>product_id = 1, product_name = ''Lamp'', category = ''Home & Kitchen'',
       price = ''12.50'', stock_quantity = 4\<rparr>,
      \<lparr>product_id = 2, product_name = ''Novel'', category = ''Books'',
       price = ''7.99'', stock_quantity = 0\<rparr>]"

definition sample_orders :: "(int, int) order list" where
  "sample_orders =
     [\<lparr>order_id = 1, customer_id = 2, order_date = 1690000000000, total_amount = 0\<rparr>,
      \<lparr>order_id = 2, customer_id = 1, order_date = 1695000000000, total_amount = 0\<rparr>]"

section \<open>Values and their text\<close>

text \<open>
  The values a generated record holds in a field: numbers that are integers (ids,
  quantities, stock levels) and texts (names, dates, and the amounts, which
  \<open>toFixed(2)\<close> has already turned into texts). \<open>null\<close> and \<open>undefined\<close>
  (the value of a field the record does not have) are values of the language as well.
\<close>

datatype js_value = JNull | JUndefined | JNum int | JStr string

definition String_int :: "int \<Rightarrow> string" where
  "String_int n =
     (if n < 0 then CHR ''-'' # string_of_nat (nat (- n)) else string_of_nat (nat n))"

text \<open>
  \<open>String(value)\<close>. For an integer below \<open>10^21\<close> in size it is the decimal numeral.
\<close>

fun String_value :: "js_value \<Rightarrow> string" where
  "String_value JNull = ''null''"
| "String_value JUndefined = ''undefined''"
| "String_value (JNum n) = String_int n"
| "String_value (JStr s) = s"

section \<open>escapeCsvValue and convertToCsv\<close>

definition quote :: char where
  "quote = CHR 0x22"

definition comma :: char where
  "comma = CHR '',''"

definition newline :: char where
  "newline = CHR 0x0A"

text \<open>\<open>/[",\n]/.test(str)\<close>\<close>

definition test_special :: "string \<Rightarrow> bool" where
  "test_special str = list_ex (\<lambda>c. c = quote \<or> c = comma \<or> c = newline) str"

text \<open>\<open>str.replace(/"/g, '""')\<close>\<close>

definition replace_quotes :: "string \<Rightarrow> string" where
  "replace_quotes str = concat (map (\<lambda>c. if c = quote then [quote, quote] else [c]) str)"

definition escapeCsvValue :: "js_value \<Rightarrow> string" where
  "escapeCsvValue v =
     (if v = JNull \<or> v = JUndefined then ''''
      else let str = String_value v
           in if test_special str then [quote] @ replace_quotes str @ [quote] else str)"





section \<open>toInteger and toFloat\<close>

text \<open>The white space that \<open>trim\<close>, \<open>parseInt\<close> and \<open>parseFloat\<close> skip.\<close>

definition is_space :: "char \<Rightarrow> bool" where
  "is_space c = ((of_char c :: nat) \<in> {9, 10, 11, 12, 13, 32, 160})"

definition trim :: "string \<Rightarrow> string" where
  "trim s = rev (dropWhile is_space (rev (dropWhile is_space s)))"

definition strip_sign :: "string \<Rightarrow> string" where
  "strip_sign s =
     (case s of [] \<Rightarrow> [] | c # cs \<Rightarrow> if c = CHR ''+'' \<or> c = CHR ''-'' then cs else s)"

text \<open>
  \<open>Number.parseInt(value, 10)\<close>: white space is skipped, then a sign, then the longest
  run of digits is read; what follows the digits is ignored. \<open>None\<close> is \<open>NaN\<close>, the
  result when there is no digit to read.
\<close>

definition parseInt :: "string \<Rightarrow> int option" where
  "parseInt value =
     (let s = dropWhile is_space value;
          negative = (s \<noteq> [] \<and> hd s = CHR ''-'');
          z = takeWhile is_digit (strip_sign s)
      in if z = [] then None
         else Some ((if negative then - 1 else 1) * int (nat_of_digits 0 z)))"

definition invalid_message :: "string \<Rightarrow> string \<Rightarrow> string \<Rightarrow> string" where
  "invalid_message kind fieldName value =
     ''Invalid '' @ kind @ '' value for '' @ fieldName @ '': '' @ [quote] @ value @ [quote]"

definition toInteger :: "string \<Rightarrow> string \<Rightarrow> js_error + int" where
  "toInteger value fieldName =
     (case parseInt value of
        None \<Rightarrow> Inl (Error (invalid_message ''integer'' fieldName value))
      | Some result \<Rightarrow> Inr result)"

text \<open>
  \<open>Number.parseFloat(value)\<close> reads the longest prefix, after white space, that is a
  decimal literal: a sign, then \<open>Infinity\<close> or digits with an optional fraction and
  exponent. The result is \<open>NaN\<close> exactly when no prefix is one, which is decided by
  the first characters. The number read is a double: \<open>value_of\<close>, a parameter, gives
  it.
\<close>

definition has_decimal_prefix :: "string \<Rightarrow> bool" where
  "has_decimal_prefix value =
     (let s = strip_sign (dropWhile is_space value)
      in take 8 s = ''Infinity'' \<or>
         (case s of
            [] \<Rightarrow> False
          | c # cs \<Rightarrow> is_digit c \<or> (c = CHR ''.'' \<and> cs \<noteq> [] \<and> is_digit (hd cs))))"

definition parseFloat :: "(string \<Rightarrow> 'n) \<Rightarrow> string \<Rightarrow> 'n option" where
  "parseFloat value_of value =
     (if has_decimal_prefix value then Some (value_of value) else None)"

definition toFloat :: "(string \<Rightarrow> 'n) \<Rightarrow> string \<Rightarrow> string \<Rightarrow> js_error + 'n" where
  "toFloat value_of value fieldName =
     (case parseFloat value_of value of
        None \<Rightarrow> Inl (Error (invalid_message ''numeric'' fieldName value))
      | Some result \<Rightarrow> Inr result)"

section \<open>Reading delimited text\<close>

text \<open>
  Modelled from the spec: the csv-parser package, through which loadCsv pipes the file, is
  not among the sources. Its reader is modelled from sections 4.3 and 6 of the
  specification, as the inverse of the serializer: records are separated by line feeds and
  cells by commas; a quote opens a quoted stretch, in which commas and line feeds are
  ordinary characters and two quotes in a row stand for one quote; a single quote closes
  the stretch.

  \<open>csv_records quoted text\<close> is the list of records of \<open>text\<close>, each a list of
  cells; \<open>quoted\<close> tells whether the text starts inside a quoted stretch.
\<close>

definition add_char :: "char \<Rightarrow> string list list \<Rightarrow> string list list" where
  "add_char c records =
     (case records of
        [] \<Rightarrow> [[[c]]]
      | [] # rest \<Rightarrow> [[c]] # rest
      | (cell # cells) # rest \<Rightarrow> ((c # cell) # cells) # rest)"

definition new_cell :: "string list list \<Rightarrow> string list list" where
  "new_cell records =
     (case records of [] \<Rightarrow> [[[], []]] | cells # rest \<Rightarrow> ([] # cells) # rest)"

definition new_record :: "string list list \<Rightarrow> string list list" where
  "new_record records = [[]] # records"

fun csv_records :: "bool \<Rightarrow> string \<Rightarrow> string list list" where
  "csv_records quoted [] = [[[]]]"
| "csv_records False (c # cs) =
     (if c = comma then new_cell (csv_records False cs)
      else if c = newline then new_record (csv_records False cs)
      else if c = quote then csv_records True cs
      else add_char c (csv_records False cs))"
| "csv_records True [c] =
     (if c = quote then csv_records False [] else add_char c (csv_records True []))"
| "csv_records True (c # d # ds) =
     (if c = quote then
        (if d = quote then add_char quote (csv_records True ds)
         else csv_records False (d # ds))
      else add_char c (csv_records True (d # ds)))"

text \<open>
  The names of the cells of a row: the headers, and \<open>_n\<close> for a cell at a position
  \<open>n\<close> beyond the last header.
\<close>

definition row_keys :: "string list \<Rightarrow> nat \<Rightarrow> string list" where
  "row_keys headers n =
     headers @ map (\<lambda>i. CHR ''_'' # string_of_nat i) [length headers..<n]"

text \<open>
  The parser as loadCsv configures it: the first record gives the headers, each trimmed
  (\<open>mapHeaders\<close>); every later record is a row, an object that maps the headers to the
  cells, each trimmed (\<open>mapValues\<close>). A row is kept as the list of its entries.
\<close>

definition csv_parser :: "string \<Rightarrow> (string \<times> string) list list" where
  "csv_parser text =
     (case csv_records False text of
        [] \<Rightarrow> []
      | header # lines \<Rightarrow>
          let headers = map trim header
          in map (\<lambda>cells. zip (row_keys headers (length cells)) (map trim cells)) lines)"

section \<open>loadCsv\<close>

text \<open>
  What a converter returns: the number of toInteger, the number of toFloat, or a text.
\<close>

datatype 'n cell = CInt int | CNum 'n | CStr string

type_synonym 'n converter = "string \<Rightarrow> js_error + 'n cell"

text \<open>\<open>error instanceof Error ? error.message : String(error)\<close>\<close>

fun error_message :: "js_error \<Rightarrow> string" where
  "error_message (Error message) = message"
| "error_message FakerError = ''FakerError''"

text \<open>
  \<open>Object.fromEntries(Object.entries(rawRow).map(...))\<close>: the entries are converted
  from the first to the last; a converter that throws ends the conversion of the row.
\<close>

fun convert_entries ::
  "(string \<Rightarrow> 'n converter option) \<Rightarrow> (string \<times> string) list \<Rightarrow> js_error + (string \<times> 'n cell) list"
where
  "convert_entries converters [] = Inr []"
| "convert_entries converters ((key, value) # rest) =
     (case (case converters key of
              None \<Rightarrow> Inr (CStr value)
            | Some converter \<Rightarrow> converter value) of
        Inl e \<Rightarrow> Inl e
      | Inr v \<Rightarrow>
          (case convert_entries converters rest of
             Inl e \<Rightarrow> Inl e
           | Inr vs \<Rightarrow> Inr ((key, v) # vs)))"

text \<open>
  The handler of the \<open>data\<close> events, run over the rows the parser emits, with the
  rows collected so far. A row that cannot be converted destroys the stream with an error,
  which rejects the promise: no later row is read and no row is returned.
\<close>

fun load_rows ::
  "string \<Rightarrow> (string \<Rightarrow> 'n converter option) \<Rightarrow> (string \<times> string) list list
     \<Rightarrow> (string \<times> 'n cell) list list \<Rightarrow> js_error + (string \<times> 'n cell) list list"
where
  "load_rows fileName converters [] rows = Inr rows"
| "load_rows fileName converters (rawRow # rest) rows =
     (case convert_entries converters rawRow of
        Inl e \<Rightarrow>
          Inl (Error (''Failed to convert row in '' @ fileName @ '': '' @ error_message e))
      | Inr convertedRow \<Rightarrow> load_rows fileName converters rest (rows @ [convertedRow]))"

text \<open>\<open>loadCsv(fileName, converters)\<close>, for the text that the file holds.\<close>

definition loadCsv ::
  "string \<Rightarrow> (string \<Rightarrow> 'n converter option) \<Rightarrow> string \<Rightarrow> js_error + (string \<times> 'n cell) list list"
where
  "loadCsv fileName converters text = load_rows fileName converters (csv_parser text) []"

text \<open>
  The converters that main passes for orders.csv.
\<close>

definition orders_converters :: "(string \<Rightarrow> 'n) \<Rightarrow> string \<Rightarrow> 'n converter option" where
  "orders_converters value_of =
     [''order_id'' \<mapsto> (\<lambda>value. map_sum id CInt (toInteger value ''order_id'')),
      ''customer_id'' \<mapsto> (\<lambda>value. map_sum id CInt (toInteger value ''customer_id'')),
      ''order_date'' \<mapsto> (\<lambda>value. Inr (CStr value)),
      ''total_amount'' \<mapsto> (\<lambda>value. map_sum id CNum (toFloat value_of value ''total_amount''))]"

section \<open>Notions used in the statements about the texts\<close>

text \<open>
  A text is a decimal numeral when it is, as a whole, an optional sign, one or more digits
  and, optionally, a point followed by one or more digits.
\<close>

definition decimal_numeral :: "string \<Rightarrow> bool" where
  "decimal_numeral s =
     (let t = strip_sign s;
          whole = takeWhile is_digit t;
          rest = dropWhile is_digit t
      in whole \<noteq> [] \<and>
         (rest = [] \<or>
          (hd rest = CHR ''.'' \<and> tl rest \<noteq> [] \<and> list_all is_digit (tl rest))))"












section \<open>The store\<close>

text \<open>
  create-database.js talks to an SQLite database through \<open>runQuery\<close>. The engine is not
  part of the program; the statements the program issues are modelled after their
  documented meaning. A database holds its tables, in the order of their creation, and,
  while a transaction is open, the tables as they were when it began. A statement that
  fails changes nothing.

  The declarations of a table are kept as data. Whether the engine accepts a row
  (primary key, NOT NULL, and the foreign keys that
  \<open>PRAGMA foreign_keys = ON\<close> makes it enforce) is a parameter of the model,
  \<open>check\<close>: it gives the message of the constraint error, or \<open>None\<close> for a row
  that is accepted. What is proved holds whatever the engine rejects.

  With foreign keys enforced, SQLite deletes the rows of a table before it drops it, which
  touches other tables only when rows of theirs refer to the rows deleted. createTables
  drops each table after the tables that refer to it, so in a store whose only tables are
  the five of the program (main creates the file afresh) no such row exists when a table is
  dropped. In the model, dropping a table removes it and nothing else; the statement about
  createTables is made for the stores of the program.
\<close>

datatype fk_action = CASCADE | RESTRICT

record foreign_key =
  fk_column :: string
  fk_parent :: string
  fk_parent_column :: string
  fk_on_delete :: fk_action
  fk_on_update :: fk_action

record column_def =
  column_name :: string
  column_type :: string
  primary_key :: bool
  not_null :: bool

record table_def =
  tbl_columns :: "column_def list"
  tbl_foreign_keys :: "foreign_key list"

record 'v table =
  tbl_def :: table_def
  tbl_rows :: "'v list list"

record 'v database =
  tables :: "(string \<times> 'v table) list"
  saved :: "(string \<times> 'v table) list option"

datatype 'v statement =
    BEGIN_TRANSACTION
  | COMMIT
  | ROLLBACK
  | DROP_TABLE bool string
  | CREATE_TABLE bool string table_def
  | INSERT_INTO string "string list" "'v list"

type_synonym 'v constraint_check =
  "'v database \<Rightarrow> string \<Rightarrow> string list \<Rightarrow> 'v list \<Rightarrow> string option"

definition has_table :: "'v database \<Rightarrow> string \<Rightarrow> bool" where
  "has_table db name = (name \<in> set (map fst (tables db)))"

definition insert_row :: "string \<Rightarrow> 'v list \<Rightarrow> (string \<times> 'v table) list \<Rightarrow> (string \<times> 'v table) list" where
  "insert_row name row ts =
     map (\<lambda>(n, t). if n = name then (n, t\<lparr>tbl_rows := tbl_rows t @ [row]\<rparr>) else (n, t)) ts"

text \<open>
  \<open>runQuery(db, sql, params)\<close>. The flag of \<open>DROP_TABLE\<close> is \<open>IF EXISTS\<close> and the
  flag of \<open>CREATE_TABLE\<close> is \<open>IF NOT EXISTS\<close>.
\<close>

fun runQuery :: "'v constraint_check \<Rightarrow> 'v database \<Rightarrow> 'v statement \<Rightarrow> js_error + 'v database" where
  "runQuery check db BEGIN_TRANSACTION =
     (case saved db of
        Some s \<Rightarrow> Inl (Error ''cannot start a transaction within a transaction'')
      | None \<Rightarrow> Inr (db\<lparr>saved := Some (tables db)\<rparr>))"
| "runQuery check db COMMIT =
     (case saved db of
        None \<Rightarrow> Inl (Error ''cannot commit - no transaction is active'')
      | Some s \<Rightarrow> Inr (db\<lparr>saved := None\<rparr>))"
| "runQuery check db ROLLBACK =
     (case saved db of
        None \<Rightarrow> Inl (Error ''cannot rollback - no transaction is active'')
      | Some s \<Rightarrow> Inr (db\<lparr>tables := s, saved := None\<rparr>))"
| "runQuery check db (DROP_TABLE if_exists name) =
     (if has_table db name
      then Inr (db\<lparr>tables := filter (\<lambda>(n, t). n \<noteq> name) (tables db)\<rparr>)
      else if if_exists then Inr db
      else Inl (Error (''no such table: '' @ name)))"
| "runQuery check db (CREATE_TABLE if_not_exists name d) =
     (if has_table db name
      then (if if_not_exists then Inr db
            else Inl (Error (''table '' @ name @ '' already exists'')))
      else Inr (db\<lparr>tables := tables db @ [(name, \<lparr>tbl_def = d, tbl_rows = []\<rparr>)]\<rparr>))"
| "runQuery check db (INSERT_INTO name cols vals) =
     (if \<not> has_table db name then Inl (Error (''no such table: '' @ name))
      else (case check db name cols vals of
              Some message \<Rightarrow> Inl (Error message)
            | None \<Rightarrow> Inr (db\<lparr>tables := insert_row name vals (tables db)\<rparr>)))"

section \<open>createTables\<close>

definition col :: "string \<Rightarrow> string \<Rightarrow> column_def" where
  "col name type = \<lparr>column_name = name, column_type = type, primary_key = False, not_null = True\<rparr>"

definition pk :: "string \<Rightarrow> column_def" where
  "pk name = \<lparr>column_name = name, column_type = ''INTEGER'', primary_key = True, not_null = False\<rparr>"

definition fk :: "string \<Rightarrow> string \<Rightarrow> string \<Rightarrow> fk_action \<Rightarrow> foreign_key" where
  "fk column parent parent_column on_delete =
     \<lparr>fk_column = column, fk_parent = parent, fk_parent_column = parent_column,
      fk_on_delete = on_delete, fk_on_update = CASCADE\<rparr>"

definition customers_def :: table_def where
  "customers_def =
     \<lparr>tbl_columns = [pk ''customer_id'', col ''name'' ''TEXT'', col ''email'' ''TEXT'',
                     col ''signup_date'' ''TEXT'', col ''country'' ''TEXT''],
      tbl_foreign_keys = []\<rparr>"

definition products_def :: table_def where
  "products_def =
     \<lparr>tbl_columns = [pk ''product_id'', col ''product_name'' ''TEXT'', col ''category'' ''TEXT'',
                     col ''price'' ''REAL'', col ''stock_quantity'' ''INTEGER''],
      tbl_foreign_keys = []\<rparr>"

definition orders_def :: table_def where
  "orders_def =
     \<lparr>tbl_columns = [pk ''order_id'', col ''customer_id'' ''INTEGER'', col ''order_date'' ''TEXT'',
                     col ''total_amount'' ''REAL''],
      tbl_foreign_keys = [fk ''customer_id'' ''customers'' ''customer_id'' CASCADE]\<rparr>"

definition order_items_def :: table_def where
  "order_items_def =
     \<lparr>tbl_columns = [pk ''order_item_id'', col ''order_id'' ''INTEGER'',
                     col ''product_id'' ''INTEGER'', col ''quantity'' ''INTEGER'',
                     col ''unit_price'' ''REAL''],
      tbl_foreign_keys = [fk ''order_id'' ''orders'' ''order_id'' CASCADE,
                          fk ''product_id'' ''products'' ''product_id'' RESTRICT]\<rparr>"

definition payments_def :: table_def where
  "payments_def =
     \<lparr>tbl_columns = [pk ''payment_id'', col ''order_id'' ''INTEGER'',
                     col ''payment_method'' ''TEXT'', col ''payment_status'' ''TEXT'',
                     col ''payment_date'' ''TEXT''],
      tbl_foreign_keys = [fk ''order_id'' ''orders'' ''order_id'' CASCADE]\<rparr>"

definition dropStatements :: "'v statement list" where
  "dropStatements =
     [DROP_TABLE True ''payments'', DROP_TABLE True ''order_items'', DROP_TABLE True ''orders'',
      DROP_TABLE True ''products'', DROP_TABLE True ''customers'']"

definition createStatements :: "'v statement list" where
  "createStatements =
     [CREATE_TABLE True ''customers'' customers_def,
      CREATE_TABLE True ''products'' products_def,
      CREATE_TABLE True ''orders'' orders_def,
      CREATE_TABLE True ''order_items'' order_items_def,
      CREATE_TABLE True ''payments'' payments_def]"

text \<open>
  \<open>for (const statement of statements) await runQuery(db, statement)\<close>: the first
  statement that fails ends the loop with its error.
\<close>

fun run_statements :: "'v constraint_check \<Rightarrow> 'v database \<Rightarrow> 'v statement list \<Rightarrow> js_error + 'v database" where
  "run_statements check db [] = Inr db"
| "run_statements check db (statement # rest) =
     (case runQuery check db statement of
        Inl e \<Rightarrow> Inl e
      | Inr db' \<Rightarrow> run_statements check db' rest)"

definition createTables :: "'v constraint_check \<Rightarrow> 'v database \<Rightarrow> js_error + 'v database" where
  "createTables check db =
     (case run_statements check db dropStatements of
        Inl e \<Rightarrow> Inl e
      | Inr db' \<Rightarrow> run_statements check db' createStatements)"

section \<open>insertData\<close>

text \<open>
  A loaded row is an object; \<open>row[column]\<close> is \<open>undefined\<close>, bound as NULL, for a
  column the row does not have. The values of the store are therefore optional cells.
\<close>

definition row_values :: "string list \<Rightarrow> (string \<times> 'c) list \<Rightarrow> 'c option list" where
  "row_values cols row = map (\<lambda>column. map_of row column) cols"

text \<open>
  The loop over the rows, inside the \<open>try\<close> block. The result is the error thrown,
  if any, and the database as the loop leaves it.
\<close>

fun insert_rows ::
  "'c option constraint_check \<Rightarrow> 'c option database \<Rightarrow> string \<Rightarrow> string list
     \<Rightarrow> (string \<times> 'c) list list \<Rightarrow> js_error option \<times> 'c option database"
where
  "insert_rows check db tableName cols [] = (None, db)"
| "insert_rows check db tableName cols (row # rest) =
     (case runQuery check db (INSERT_INTO tableName cols (row_values cols row)) of
        Inl e \<Rightarrow> (Some e, db)
      | Inr db' \<Rightarrow> insert_rows check db' tableName cols rest)"

text \<open>
  \<open>insertData(db, tableName, columns, rows)\<close>: the error it throws, if any, and the
  database it leaves.
\<close>

definition insertData ::
  "'c option constraint_check \<Rightarrow> 'c option database \<Rightarrow> string \<Rightarrow> string list
     \<Rightarrow> (string \<times> 'c) list list \<Rightarrow> js_error option \<times> 'c option database"
where
  "insertData check db tableName cols rows =
     (if rows = [] then (None, db)
      else
        (case runQuery check db BEGIN_TRANSACTION of
           Inl e \<Rightarrow> (Some e, db)
         | Inr db1 \<Rightarrow>
             (let (thrown, db2) =
                    (case insert_rows check db1 tableName cols rows of
                       (Some e, db') \<Rightarrow> (Some e, db')
                     | (None, db') \<Rightarrow>
                         (case runQuery check db' COMMIT of
                            Inl e \<Rightarrow> (Some e, db')
                          | Inr db'' \<Rightarrow> (None, db'')))
              in case thrown of
                   None \<Rightarrow> (None, db2)
                 | Some e \<Rightarrow>
                     (case runQuery check db2 ROLLBACK of
                        Inl e' \<Rightarrow> (Some e', db2)
                      | Inr db3 \<Rightarrow> (Some e, db3)))))"

section \<open>Notions used in the statements about the store\<close>

definition table_names :: "string list" where
  "table_names = [''customers'', ''products'', ''orders'', ''order_items'', ''payments'']"

text \<open>The five tables as createTables leaves them: declared, in this order, and empty.\<close>

definition empty_tables :: "(string \<times> 'v table) list" where
  "empty_tables =
     [(''customers'', \<lparr>tbl_def = customers_def, tbl_rows = []\<rparr>),
      (''products'', \<lparr>tbl_def = products_def, tbl_rows = []\<rparr>),
      (''orders'', \<lparr>tbl_def = orders_def, tbl_rows = []\<rparr>),
      (''order_items'', \<lparr>tbl_def = order_items_def, tbl_rows = []\<rparr>),
      (''payments'', \<lparr>tbl_def = payments_def, tbl_rows = []\<rparr>)]"

definition other_tables :: "(string \<times> 'v table) list \<Rightarrow> (string \<times> 'v table) list" where
  "other_tables ts = filter (\<lambda>(n, t). n \<notin> set table_names) ts"

text \<open>
  A store of the program: each of its tables is one of the five, declared as createTables
  declares it, with any rows. These are the stores that main can hand to createTables and
  insertData.
\<close>

definition declared_tables :: "(string \<times> table_def) list" where
  "declared_tables =
     [(''customers'', customers_def), (''products'', products_def), (''orders'', orders_def),
      (''order_items'', order_items_def), (''payments'', payments_def)]"

definition program_store :: "'v database \<Rightarrow> bool" where
  "program_store db = list_all (\<lambda>(n, t). (n, tbl_def t) \<in> set declared_tables) (tables db)"

text \<open>
  A constraint check for examples: a row is rejected when its first value is already the
  first value of a row of the table (a primary key that is taken).
\<close>

definition sample_check :: "'v constraint_check" where
  "sample_check db name cols vals =
     (case map_of (tables db) name of
        None \<Rightarrow> None
      | Some t \<Rightarrow>
          if vals \<noteq> [] \<and> hd vals \<in> set (map hd (tbl_rows t))
          then Some ''UNIQUE constraint failed'' else None)"

definition fresh_database :: "'v database" where
  "fresh_database = \<lparr>tables = [], saved = None\<rparr>"

text \<open>A store for examples: the five tables, with one customer loaded.\<close>

definition created_store :: "int option database" where
  "created_store = \<lparr>tables = empty_tables, saved = None\<rparr>"

definition loaded_store :: "int option database" where
  "loaded_store =
     \<lparr>tables = insert_row ''customers'' [Some 1, Some 10] empty_tables, saved = None\<rparr>"

section \<open>Properties of the generator\<close>

lemma addOrderItem_Inr:
  assumes "addOrderItem nm products i st w = Inr (st', w')"
  shows "\<exists>p q. p \<in> set products \<and> 1 \<le> q \<and> q \<le> 5 \<and> st' = item_added nm p q i st"
proof -
  from assms have ne: "products \<noteq> []"
    by (auto simp: addOrderItem_def arrayElement_def arrayIndex_def split: if_splits)
  define p where "p = products ! (draws w 0 mod length products)"
  define q where "q = 1 + int (draws w (Suc 0)) mod 5"
  have "p \<in> set products" using ne by (simp add: p_def)
  moreover have "1 \<le> q" "q \<le> 5" by (simp_all add: q_def)
  moreover have "st' = item_added nm p q i st"
    using assms ne
    unfolding addOrderItem_def arrayElement_def arrayIndex_def faker_number_int_def draw_def
      Let_def p_def q_def item_added_def
    by (auto split: sum.splits prod.splits if_splits)
  ultimately show ?thesis by blast
qed

lemma addOrderItem_total:
  "products \<noteq> [] \<Longrightarrow> \<exists>st' w'. addOrderItem nm products i st w = Inr (st', w')"
  unfolding addOrderItem_def arrayElement_def arrayIndex_def faker_number_int_def draw_def Let_def
  by (auto split: sum.splits prod.splits if_splits)

lemma map_update_self: "(map f xs)[i := f (xs ! i)] = map f xs"
  by (simp add: map_update [symmetric])

lemma map_nth_upt: "map (\<lambda>i. f (xs ! i)) [0..<length xs] = map f xs"
  by (rule nth_equalityI) simp_all

lemma item_added_simps:
  "orderItems (item_added nm p q i st) = orderItems st @
              [\<lparr>order_item_id = nextOrderItemId st,
                oi_order_id = order_id (orders_arr st ! i),
                oi_product_id = product_id p,
                quantity = q,
                unit_price = toFixed nm (Number nm (price p)) 2\<rparr>]"
  "nextOrderItemId (item_added nm p q i st) = nextOrderItemId st + 1"
  "length (orders_arr (item_added nm p q i st)) = length (orders_arr st)"
  "map order_id (orders_arr (item_added nm p q i st)) = map order_id (orders_arr st)"
  "map customer_id (orders_arr (item_added nm p q i st)) = map customer_id (orders_arr st)"
  "map order_date (orders_arr (item_added nm p q i st)) = map order_date (orders_arr st)"
  by (simp_all add: item_added_def map_update map_update_self)

lemma addOrderItem_orders_length:
  "addOrderItem nm products i st w = Inr (st', w')
     \<Longrightarrow> length (orders_arr st') = length (orders_arr st)"
  by (auto dest!: addOrderItem_Inr simp: item_added_simps)

lemma first_pass_inv:
  assumes "first_pass nm products safe idxs st w = Inr (st', w')"
    and "P st"
    and "\<forall>i \<in> set idxs. i < length (orders_arr st)"
    and step: "\<And>i s v s' v'. P s \<Longrightarrow> i < length (orders_arr s)
                 \<Longrightarrow> addOrderItem nm products i s v = Inr (s', v') \<Longrightarrow> P s'"
  shows "P st'"
  using assms(1-3)
proof (induction idxs arbitrary: st w)
  case Nil
  then show ?case by simp
next
  case (Cons i rest)
  show ?case
  proof (cases "int (length (orderItems st)) \<ge> safe")
    case True
    with Cons.prems show ?thesis by simp
  next
    case False
    with Cons.prems(1) obtain s1 w1 where
      a: "addOrderItem nm products i st w = Inr (s1, w1)" and
      r: "first_pass nm products safe rest s1 w1 = Inr (st', w')"
      by (auto split: sum.splits)
    from Cons.prems(3) have i: "i < length (orders_arr st)" by simp
    have "P s1" using step [OF Cons.prems(2) i a] .
    moreover have "\<forall>j \<in> set rest. j < length (orders_arr s1)"
      using Cons.prems(3) addOrderItem_orders_length [OF a] by simp
    ultimately show ?thesis using Cons.IH [OF r] by blast
  qed
qed

lemma top_up_inv:
  assumes "top_up nm products safe st w = Inr (st', w')"
    and "P st"
    and "\<And>i s v s' v'. P s \<Longrightarrow> i < length (orders_arr s)
                 \<Longrightarrow> addOrderItem nm products i s v = Inr (s', v') \<Longrightarrow> P s'"
  shows "P st'"
  using assms
proof (induction nm products safe st w rule: top_up.induct)
  case (1 nm products safe st w)
  note step = "1.prems"(3)
  show ?case
  proof (cases "int (length (orderItems st)) < safe")
    case False
    with "1.prems"(1,2) show ?thesis by (simp add: top_up.simps)
  next
    case True
    from "1.prems"(1) True have
      "(case arrayIndex (orders_arr st) w of
           Inl e \<Rightarrow> Inl e
         | Inr (i, w1) \<Rightarrow>
             (case addOrderItem nm products i st w1 of
                Inl e \<Rightarrow> Inl e
              | Inr (st', w') \<Rightarrow> top_up nm products safe st' w')) = Inr (st', w')"
      by (simp add: top_up.simps [of nm products safe st w])
    then obtain i w1 s1 w2 where
      ix: "arrayIndex (orders_arr st) w = Inr (i, w1)" and
      a: "addOrderItem nm products i st w1 = Inr (s1, w2)" and
      r: "top_up nm products safe s1 w2 = Inr (st', w')"
      by (auto split: sum.splits)
    from ix have i: "i < length (orders_arr st)"
      by (auto simp: arrayIndex_def draw_def split: if_splits)
    have "P s1" using step [OF "1.prems"(2) i a] .
    then show ?thesis by (rule "1.IH" [OF True ix refl a refl r _ step])
  qed
qed


lemma first_pass_total:
  "products \<noteq> [] \<Longrightarrow> \<exists>st' w'. first_pass nm products safe idxs st w = Inr (st', w')"
proof (induction idxs arbitrary: st w)
  case Nil
  then show ?case by simp
next
  case (Cons i rest)
  from addOrderItem_total [OF Cons.prems] obtain s1 w1 where
    "addOrderItem nm products i st w = Inr (s1, w1)" by blast
  then show ?case using Cons.IH [OF Cons.prems, of s1 w1] by simp
qed

lemma top_up_total:
  "products \<noteq> [] \<Longrightarrow> orders_arr st \<noteq> []
     \<Longrightarrow> \<exists>st' w'. top_up nm products safe st w = Inr (st', w')"
proof (induction nm products safe st w rule: top_up.induct)
  case (1 nm products safe st w)
  show ?case
  proof (cases "int (length (orderItems st)) < safe")
    case False
    then show ?thesis by (simp add: top_up.simps)
  next
    case True
    from "1.prems"(2) obtain i w1 where ix: "arrayIndex (orders_arr st) w = Inr (i, w1)"
      by (auto simp: arrayIndex_def draw_def)
    from addOrderItem_total [OF "1.prems"(1)] obtain s1 w2 where
      a: "addOrderItem nm products i st w1 = Inr (s1, w2)" by blast
    have "orders_arr s1 \<noteq> []"
      using addOrderItem_orders_length [OF a] "1.prems"(2) by auto
    from "1.IH" [OF True ix refl a refl "1.prems"(1) this]
    show ?thesis using True ix a by (simp add: top_up.simps [of nm products safe st w])
  qed
qed

lemma first_pass_cover:
  assumes "first_pass nm products safe idxs st w = Inr (st', w')"
    and "int (length (orderItems st) + length idxs) \<le> safe"
    and "\<forall>i \<in> set idxs. i < length (orders_arr st)"
  shows "\<exists>new. orderItems st' = orderItems st @ new \<and>
           map oi_order_id new = map (\<lambda>i. order_id (orders_arr st ! i)) idxs"
  using assms
proof (induction idxs arbitrary: st w)
  case Nil
  then show ?case by simp
next
  case (Cons i rest)
  from Cons.prems(2) have "\<not> int (length (orderItems st)) \<ge> safe" by simp
  with Cons.prems(1) obtain s1 w1 where
    a: "addOrderItem nm products i st w = Inr (s1, w1)" and
    r: "first_pass nm products safe rest s1 w1 = Inr (st', w')"
    by (auto split: sum.splits)
  from addOrderItem_Inr [OF a] obtain p q where s1: "s1 = item_added nm p q i st" by blast
  have len: "length (orders_arr s1) = length (orders_arr st)"
    and ids: "map order_id (orders_arr s1) = map order_id (orders_arr st)"
    and its: "orderItems s1 = orderItems st @
              [\<lparr>order_item_id = nextOrderItemId st,
                oi_order_id = order_id (orders_arr st ! i),
                oi_product_id = product_id p,
                quantity = q,
                unit_price = toFixed nm (Number nm (price p)) 2\<rparr>]"
    by (simp_all add: s1 item_added_simps)
  have "int (length (orderItems s1) + length rest) \<le> safe"
    using Cons.prems(2) by (simp add: its)
  moreover have b: "\<forall>j \<in> set rest. j < length (orders_arr s1)"
    using Cons.prems(3) len by simp
  ultimately obtain new where
    n1: "orderItems st' = orderItems s1 @ new" and
    n2: "map oi_order_id new = map (\<lambda>i. order_id (orders_arr s1 ! i)) rest"
    using Cons.IH [OF r] by blast
  have "order_id (orders_arr s1 ! j) = order_id (orders_arr st ! j)" if "j \<in> set rest" for j
  proof -
    from that b have "j < length (orders_arr s1)" by simp
    then have "order_id (orders_arr s1 ! j) = map order_id (orders_arr s1) ! j" by simp
    also have "\<dots> = map order_id (orders_arr st) ! j" by (simp only: ids)
    also have "\<dots> = order_id (orders_arr st ! j)"
      using \<open>j < length (orders_arr s1)\<close> len by simp
    finally show ?thesis .
  qed
  then have "map (\<lambda>i. order_id (orders_arr s1 ! i)) rest
               = map (\<lambda>i. order_id (orders_arr st ! i)) rest" by simp
  with n1 n2 its show ?case by simp
qed

lemma top_up_length:
  "top_up nm products safe st w = Inr (st', w') \<Longrightarrow> int (length (orderItems st)) \<le> safe
     \<Longrightarrow> int (length (orderItems st')) = safe"
proof (induction nm products safe st w rule: top_up.induct)
  case (1 nm products safe st w)
  show ?case
  proof (cases "int (length (orderItems st)) < safe")
    case False
    with "1.prems" show ?thesis by (simp add: top_up.simps)
  next
    case True
    from "1.prems"(1) True have
      "(case arrayIndex (orders_arr st) w of
           Inl e \<Rightarrow> Inl e
         | Inr (i, w1) \<Rightarrow>
             (case addOrderItem nm products i st w1 of
                Inl e \<Rightarrow> Inl e
              | Inr (st', w') \<Rightarrow> top_up nm products safe st' w')) = Inr (st', w')"
      by (simp add: top_up.simps [of nm products safe st w])
    then obtain i w1 s1 w2 where
      ix: "arrayIndex (orders_arr st) w = Inr (i, w1)" and
      a: "addOrderItem nm products i st w1 = Inr (s1, w2)" and
      r: "top_up nm products safe s1 w2 = Inr (st', w')"
      by (auto split: sum.splits)
    have "int (length (orderItems s1)) \<le> safe"
      using addOrderItem_length [OF a] True by simp
    then show ?thesis by (rule "1.IH" [OF True ix refl a refl r])
  qed
qed


lemma finalized_sel:
  "order_id (finalized nm order) = order_id order"
  "customer_id (finalized nm order) = customer_id order"
  "order_date (finalized nm order) = order_date order"
  "total_amount (finalized nm order) = toFixed nm (total_amount order) 2"
  by (simp_all add: finalized_def)

lemma generateOrderItems_Inr:
  assumes "generateOrderItems nm orders products targetCount w = Inr (items, orders', w')"
  shows "\<exists>st1 w1 st2.
           first_pass nm products (max targetCount (int (length orders))) [0..<length orders]
             (start_state orders) w = Inr (st1, w1) \<and>
           top_up nm products (max targetCount (int (length orders))) st1 w1 = Inr (st2, w') \<and>
           items = orderItems st2 \<and> orders' = map (finalized nm) (orders_arr st2)"
  using assms
  by (auto simp: generateOrderItems_def start_state_def finalized_def Let_def
           split: sum.splits)

lemma generateOrderItems_total:
  assumes "products \<noteq> []" and "orders \<noteq> []"
  shows "\<exists>items orders' w'.
           generateOrderItems nm orders products targetCount w = Inr (items, orders', w')"
proof -
  let ?safe = "max targetCount (int (length orders))"
  from first_pass_total [OF assms(1)] obtain st1 w1 where
    f: "first_pass nm products ?safe [0..<length orders] (start_state orders) w = Inr (st1, w1)"
    by blast
  have "length (orders_arr st1) = length (orders_arr (start_state orders))"
    by (rule first_pass_inv [OF f, where P = "\<lambda>s. length (orders_arr s) = length (orders_arr (start_state orders))"])
       (auto simp: start_state_def dest: addOrderItem_orders_length)
  then have "orders_arr st1 \<noteq> []" using assms(2) by (auto simp: start_state_def)
  from top_up_total [OF assms(1) this] obtain st2 w2 where
    "top_up nm products ?safe st1 w1 = Inr (st2, w2)" by blast
  with f show ?thesis
    by (simp add: generateOrderItems_def start_state_def Let_def)
qed

lemma generateOrderItems_inv:
  assumes "generateOrderItems nm orders products targetCount w = Inr (items, orders', w')"
    and "P (start_state orders)"
    and step: "\<And>i s v s' v'. P s \<Longrightarrow> i < length (orders_arr s)
                 \<Longrightarrow> addOrderItem nm products i s v = Inr (s', v') \<Longrightarrow> P s'"
  shows "\<exists>st. P st \<and> items = orderItems st \<and> orders' = map (finalized nm) (orders_arr st)"
proof -
  from generateOrderItems_Inr [OF assms(1)] obtain st1 w1 st2 where
    f: "first_pass nm products (max targetCount (int (length orders))) [0..<length orders]
             (start_state orders) w = Inr (st1, w1)" and
    t: "top_up nm products (max targetCount (int (length orders))) st1 w1 = Inr (st2, w')" and
    r: "items = orderItems st2" "orders' = map (finalized nm) (orders_arr st2)"
    by blast
  have "P st1"
    by (rule first_pass_inv [where P = P, OF f assms(2) _ step]) (auto simp: start_state_def)
  then have "P st2" by (rule top_up_inv [where P = P, OF t _ step])
  with r show ?thesis by blast
qed

text \<open>Shape of the result: how many items, and which orders the first ones belong to.\<close>

lemma generateOrderItems_shape:
  assumes "generateOrderItems nm orders products targetCount w = Inr (items, orders', w')"
  shows "int (length items) = max targetCount (int (length orders))"
    and "map oi_order_id (take (length orders) items) = map order_id orders"
proof -
  let ?safe = "max targetCount (int (length orders))"
  from generateOrderItems_Inr [OF assms(1)] obtain st1 w1 st2 where
    f: "first_pass nm products ?safe [0..<length orders] (start_state orders) w = Inr (st1, w1)" and
    t: "top_up nm products ?safe st1 w1 = Inr (st2, w')" and
    r: "items = orderItems st2"
    by blast
  have "int (length (orderItems (start_state orders)) + length [0..<length orders]) \<le> ?safe"
    by (simp add: start_state_def)
  moreover have "\<forall>i \<in> set [0..<length orders]. i < length (orders_arr (start_state orders))"
    by (simp add: start_state_def)
  ultimately obtain new where
    "orderItems st1 = orderItems (start_state orders) @ new" and
    "map oi_order_id new
       = map (\<lambda>i. order_id (orders_arr (start_state orders) ! i)) [0..<length orders]"
    using first_pass_cover [OF f] by blast
  then have new: "orderItems st1 = new" and
    ids: "map oi_order_id new = map (\<lambda>i. order_id (orders ! i)) [0..<length orders]"
    by (simp_all add: start_state_def)
  from ids have ids': "map oi_order_id new = map order_id orders"
    by (simp add: map_nth_upt)
  then have len: "length new = length orders"
    by (metis length_map)
  have "int (length (orderItems st1)) \<le> ?safe" using new len by simp
  from top_up_length [OF t this] r show "int (length items) = ?safe" by simp
  have "\<exists>more. orderItems st2 = new @ more"
    by (rule top_up_inv [OF t, where P = "\<lambda>s. \<exists>more. orderItems s = new @ more"])
       (auto simp: new dest!: addOrderItem_Inr simp: item_added_simps)
  then obtain more where "items = new @ more" using r by blast
  with len ids' show "map oi_order_id (take (length orders) items) = map order_id orders"
    by simp
qed


lemma generateOrderItems_item_ids:
  assumes "generateOrderItems nm orders products targetCount w = Inr (items, orders', w')"
  shows "\<forall>k<length items. order_item_id (items ! k) = int k + 1"
proof -
  let ?P = "\<lambda>s::('a, 'b) items_state. nextOrderItemId s = int (length (orderItems s)) + 1 \<and>
              (\<forall>k<length (orderItems s). order_item_id (orderItems s ! k) = int k + 1)"
  have "\<exists>st. ?P st \<and> items = orderItems st \<and> orders' = map (finalized nm) (orders_arr st)"
  proof (rule generateOrderItems_inv [where P = ?P, OF assms])
    show "?P (start_state orders)" by (simp add: start_state_def)
  next
    fix i and s s' :: "('a, 'b) items_state" and v v'
    assume P: "?P s" and a: "addOrderItem nm products i s v = Inr (s', v')"
    from addOrderItem_Inr [OF a] obtain p q where s': "s' = item_added nm p q i s" by blast
    show "?P s'"
      using P by (auto simp: s' item_added_simps nth_append less_Suc_eq)
  qed
  then show ?thesis by blast
qed

lemma generateOrderItems_refs:
  assumes "generateOrderItems nm orders products targetCount w = Inr (items, orders', w')"
  shows "map order_id orders' = map order_id orders"
    and "map customer_id orders' = map customer_id orders"
    and "map order_date orders' = map order_date orders"
    and "\<forall>it \<in> set items. oi_order_id it \<in> order_id ` set orders \<and>
                            oi_product_id it \<in> product_id ` set products"
proof -
  let ?P = "\<lambda>s::('a, 'b) items_state.
              map order_id (orders_arr s) = map order_id orders \<and>
              map customer_id (orders_arr s) = map customer_id orders \<and>
              map order_date (orders_arr s) = map order_date orders \<and>
              (\<forall>it \<in> set (orderItems s). oi_order_id it \<in> order_id ` set orders \<and>
                            oi_product_id it \<in> product_id ` set products)"
  have "\<exists>st. ?P st \<and> items = orderItems st \<and> orders' = map (finalized nm) (orders_arr st)"
  proof (rule generateOrderItems_inv [where P = ?P, OF assms])
    show "?P (start_state orders)" by (simp add: start_state_def)
  next
    fix i and s s' :: "('a, 'b) items_state" and v v'
    assume P: "?P s" and i: "i < length (orders_arr s)"
      and a: "addOrderItem nm products i s v = Inr (s', v')"
    from addOrderItem_Inr [OF a] obtain p q where
      p: "p \<in> set products" and s': "s' = item_added nm p q i s" by blast
    have "order_id (orders_arr s ! i) = map order_id (orders_arr s) ! i" using i by simp
    also have "\<dots> = map order_id orders ! i" using P by simp
    also have "\<dots> \<in> set (map order_id orders)"
      using i P by (metis length_map nth_mem)
    finally have "order_id (orders_arr s ! i) \<in> order_id ` set orders" by simp
    then show "?P s'"
      using P p by (auto simp: s' item_added_simps)
  qed
  then obtain st where st: "?P st" "items = orderItems st"
    "orders' = map (finalized nm) (orders_arr st)" by blast
  from st show "map order_id orders' = map order_id orders"
    and "map customer_id orders' = map customer_id orders"
    and "map order_date orders' = map order_date orders"
    by (simp_all add: comp_def finalized_sel)
  from st show "\<forall>it \<in> set items. oi_order_id it \<in> order_id ` set orders \<and>
                            oi_product_id it \<in> product_id ` set products"
    by simp
qed

text \<open>
  Claim C10. For a non-empty list of orders (and a non-empty list of products, without which
  no item can be drawn) generateOrderItems returns, and the number of items it returns is
  exactly \<open>max(targetCount, orders.length)\<close>; their ids are 1, 2, 3, ... in the order
  of creation, and the first \<open>orders.length\<close> items belong to the orders in the order
  of the array, one each.
\<close>

theorem generateOrderItems_exact_count:
  assumes "orders \<noteq> []" and "products \<noteq> []"
  shows "\<exists>items orders' w'.
           generateOrderItems nm orders products targetCount w = Inr (items, orders', w') \<and>
           int (length items) = max targetCount (int (length orders)) \<and>
           (\<forall>k<length items. order_item_id (items ! k) = int k + 1) \<and>
           (\<forall>k<length orders. oi_order_id (items ! k) = order_id (orders ! k))"
proof -
  from generateOrderItems_total [OF assms(2,1)] obtain items orders' w' where
    g: "generateOrderItems nm orders products targetCount w = Inr (items, orders', w')"
    by blast
  have len: "int (length items) = max targetCount (int (length orders))"
    and first: "map oi_order_id (take (length orders) items) = map order_id orders"
    by (rule generateOrderItems_shape [OF g])+
  have "oi_order_id (items ! k) = order_id (orders ! k)" if "k < length orders" for k
  proof -
    from len that have "k < length items" by simp
    with that have "oi_order_id (items ! k) = map oi_order_id (take (length orders) items) ! k"
      by simp
    also have "\<dots> = order_id (orders ! k)" using that by (simp add: first)
    finally show ?thesis .
  qed
  with g len generateOrderItems_item_ids [OF g] show ?thesis by blast
qed

theorem generateOrderItems_exact_count_witness:
  "sample_orders \<noteq> [] \<and> sample_products \<noteq> [] \<and>
   (\<exists>items orders' w'.
      generateOrderItems cents sample_orders sample_products 3 sample_world
        = Inr (items, orders', w') \<and>
      int (length items) = max 3 (int (length sample_orders)) \<and>
      (\<forall>k<length items. order_item_id (items ! k) = int k + 1) \<and>
      (\<forall>k<length sample_orders. oi_order_id (items ! k) = order_id (sample_orders ! k)))"
  using generateOrderItems_exact_count [of sample_orders sample_products cents 3 sample_world]
  by (simp add: sample_orders_def sample_products_def)

text \<open>
  Claim C4. For a non-empty list of orders and any requested count (and a non-empty list of
  products) generateOrderItems returns, the first pass has given one item to each order in
  the order of the array (these are the first \<open>orders.length\<close> items, before any
  top-up item), and so every order is referenced by at least one item.
\<close>

theorem generateOrderItems_covers_orders:
  assumes "orders \<noteq> []" and "products \<noteq> []"
  shows "\<exists>items orders' w'.
           generateOrderItems nm orders products targetCount w = Inr (items, orders', w') \<and>
           map oi_order_id (take (length orders) items) = map order_id orders \<and>
           (\<forall>order \<in> set orders. \<exists>it \<in> set items. oi_order_id it = order_id order)"
proof -
  from generateOrderItems_total [OF assms(2,1)] obtain items orders' w' where
    g: "generateOrderItems nm orders products targetCount w = Inr (items, orders', w')"
    by blast
  have first: "map oi_order_id (take (length orders) items) = map order_id orders"
    by (rule generateOrderItems_shape [OF g])
  have "\<exists>it \<in> set items. oi_order_id it = order_id order" if "order \<in> set orders" for order
  proof -
    from that have "order_id order \<in> set (map oi_order_id (take (length orders) items))"
      by (simp add: first)
    then obtain it where "it \<in> set (take (length orders) items)" "oi_order_id it = order_id order"
      by auto
    then show ?thesis by (meson in_set_takeD)
  qed
  with g first show ?thesis by blast
qed

theorem generateOrderItems_covers_orders_witness:
  "sample_orders \<noteq> [] \<and> sample_products \<noteq> [] \<and>
   (\<exists>items orders' w'.
      generateOrderItems cents sample_orders sample_products 0 sample_world
        = Inr (items, orders', w') \<and>
      map oi_order_id (take (length sample_orders) items) = map order_id sample_orders \<and>
      (\<forall>order \<in> set sample_orders. \<exists>it \<in> set items. oi_order_id it = order_id order))"
  using generateOrderItems_covers_orders [of sample_orders sample_products cents 0 sample_world]
  by (simp add: sample_orders_def sample_products_def)


lemma item_added_total:
  "k < length (orders_arr st) \<Longrightarrow>
     total_amount (orders_arr (item_added nm p q i st) ! k) =
       (if k = i then num_add nm (total_amount (orders_arr st ! i))
                        (num_mul nm (num_of_int nm q) (Number nm (price p)))
        else total_amount (orders_arr st ! k))"
  by (simp add: item_added_def nth_list_update)

lemma items_of_snoc:
  "items_of oid (xs @ [it]) = items_of oid xs @ (if oi_order_id it = oid then [it] else [])"
  by (simp add: items_of_def)

lemma generateOrderItems_totals:
  assumes g: "generateOrderItems nm orders products targetCount w = Inr (items, orders', w')"
    and dist: "distinct (map order_id orders)"
    and canon: "\<forall>p \<in> set products. Number nm (toFixed nm (Number nm (price p)) 2) = Number nm (price p)"
  shows "\<forall>k<length orders. total_amount (orders' ! k) =
           toFixed nm (foldl (line_total nm) (total_amount (orders ! k))
                         (items_of (order_id (orders ! k)) items)) 2"
proof -
  let ?P = "\<lambda>s::('a, 'b) items_state.
              length (orders_arr s) = length orders \<and>
              map order_id (orders_arr s) = map order_id orders \<and>
              (\<forall>k<length orders. total_amount (orders_arr s ! k) =
                 foldl (line_total nm) (total_amount (orders ! k))
                   (items_of (order_id (orders ! k)) (orderItems s)))"
  have "\<exists>st. ?P st \<and> items = orderItems st \<and> orders' = map (finalized nm) (orders_arr st)"
  proof (rule generateOrderItems_inv [where P = ?P, OF g])
    show "?P (start_state orders)" by (simp add: start_state_def items_of_def)
  next
    fix i and s s' :: "('a, 'b) items_state" and v v'
    assume P: "?P s" and i: "i < length (orders_arr s)"
      and a: "addOrderItem nm products i s v = Inr (s', v')"
    from addOrderItem_Inr [OF a] obtain p q where
      p: "p \<in> set products" and s': "s' = item_added nm p q i s" by blast
    from P have len: "length (orders_arr s) = length orders"
      and ids: "map order_id (orders_arr s) = map order_id orders" by simp_all
    have oid: "order_id (orders_arr s ! k) = order_id (orders ! k)" if "k < length orders" for k
    proof -
      have "order_id (orders_arr s ! k) = map order_id (orders_arr s) ! k"
        using that len by simp
      also have "\<dots> = order_id (orders ! k)" using that by (simp add: ids)
      finally show ?thesis .
    qed
    have tot: "total_amount (orders_arr s' ! k) =
                 foldl (line_total nm) (total_amount (orders ! k))
                   (items_of (order_id (orders ! k)) (orderItems s'))"
      if k: "k < length orders" for k
    proof (cases "k = i")
      case True
      have "Number nm (toFixed nm (Number nm (price p)) 2) = Number nm (price p)"
        using canon p by blast
      then show ?thesis
        using P k True oid [of i] len
        by (simp add: s' item_added_simps item_added_total items_of_snoc line_total_def)
    next
      case False
      have "order_id (orders ! i) \<noteq> order_id (orders ! k)"
      proof
        assume "order_id (orders ! i) = order_id (orders ! k)"
        then have "map order_id orders ! i = map order_id orders ! k"
          using i k len by simp
        moreover have "i < length (map order_id orders)" "k < length (map order_id orders)"
          using i k len by simp_all
        ultimately have "i = k"
          using dist by (simp only: nth_eq_iff_index_eq)
        with False show False by simp
      qed
      then show ?thesis
        using P k False oid [of i] i len
        by (simp add: s' item_added_simps item_added_total items_of_snoc)
    qed
    show "?P s'"
      using tot len ids by (simp add: s' item_added_simps)
  qed
  then obtain st where st: "?P st" "items = orderItems st"
    "orders' = map (finalized nm) (orders_arr st)" by blast
  then show ?thesis by (simp add: finalized_sel)
qed



lemma Array_from_loop_Inr:
  assumes "Array_from_loop f idx n w = Inr (xs, w')"
    and "\<And>i v x v'. f i v = Inr (x, v') \<Longrightarrow> R i x"
  shows "length xs = n \<and> (\<forall>k<n. R (idx + k) (xs ! k))"
  using assms(1)
proof (induction n arbitrary: idx w xs)
  case 0
  then show ?case by simp
next
  case (Suc n)
  from Suc.prems obtain x w1 rest where
    fx: "f idx w = Inr (x, w1)" and
    r: "Array_from_loop f (Suc idx) n w1 = Inr (rest, w')" and
    xs: "xs = x # rest"
    by (auto split: sum.splits)
  from Suc.IH [OF r] have len: "length rest = n"
    and el: "\<forall>k<n. R (Suc idx + k) (rest ! k)" by simp_all
  have "R (idx + k) (xs ! k)" if "k < Suc n" for k
  proof (cases k)
    case 0
    with assms(2) [OF fx] xs show ?thesis by simp
  next
    case (Suc j)
    with that el have "R (Suc idx + j) (rest ! j)" by simp
    with Suc xs show ?thesis by simp
  qed
  with len xs show ?case by simp
qed

lemma Array_from_loop_total:
  assumes "Q w"
    and "\<And>i v. Q v \<Longrightarrow> \<exists>x v'. f i v = Inr (x, v') \<and> Q v'"
  shows "\<exists>xs w'. Array_from_loop f idx n w = Inr (xs, w')"
  using assms(1)
proof (induction n arbitrary: idx w)
  case 0
  then show ?case by simp
next
  case (Suc n)
  from assms(2) [OF Suc.prems, of idx] obtain x v' where
    fx: "f idx w = Inr (x, v')" and q: "Q v'" by blast
  from Suc.IH [OF q, of "Suc idx"] obtain rest w' where
    "Array_from_loop f (Suc idx) n v' = Inr (rest, w')" by blast
  with fx show ?case by simp
qed

lemma Array_map_loop_Inr:
  assumes "Array_map_loop f idx xs w = Inr (ys, w')"
    and "\<And>x i v y v'. f x i v = Inr (y, v') \<Longrightarrow> R x i y"
  shows "length ys = length xs \<and> (\<forall>k<length xs. R (xs ! k) (idx + k) (ys ! k))"
  using assms(1)
proof (induction xs arbitrary: idx w ys)
  case Nil
  then show ?case by simp
next
  case (Cons x xs)
  from Cons.prems obtain y w1 rest where
    fx: "f x idx w = Inr (y, w1)" and
    r: "Array_map_loop f (Suc idx) xs w1 = Inr (rest, w')" and
    ys: "ys = y # rest"
    by (auto split: sum.splits)
  from Cons.IH [OF r] have len: "length rest = length xs"
    and el: "\<forall>k<length xs. R (xs ! k) (Suc idx + k) (rest ! k)"
    by simp_all
  have "R ((x # xs) ! k) (idx + k) (ys ! k)" if "k < Suc (length xs)" for k
  proof (cases k)
    case 0
    with assms(2) [OF fx] ys show ?thesis by simp
  next
    case (Suc j)
    with that el have "R (xs ! j) (Suc idx + j) (rest ! j)" by simp
    with Suc ys show ?thesis by simp
  qed
  with len ys show ?case by simp
qed

lemma Array_map_loop_total:
  assumes "\<And>x i v. \<exists>y v'. f x i v = Inr (y, v')"
  shows "\<exists>ys w'. Array_map_loop f idx xs w = Inr (ys, w')"
proof (induction xs arbitrary: idx w)
  case Nil
  then show ?case by simp
next
  case (Cons x xs)
  from assms [of x idx w] obtain y v' where fx: "f x idx w = Inr (y, v')" by blast
  from Cons.IH [of "Suc idx" v'] obtain rest w' where
    "Array_map_loop f (Suc idx) xs v' = Inr (rest, w')" by blast
  with fx show ?case by simp
qed

lemma faker_number_int_Inr:
  "faker_number_int lo hi w = Inr (n, w') \<Longrightarrow> lo \<le> n \<and> n \<le> hi"
  by (auto simp: faker_number_int_def draw_def split: if_splits)
     (smt (verit) pos_mod_bound)

lemma faker_number_int_total:
  "lo \<le> hi \<Longrightarrow> \<exists>n w'. faker_number_int lo hi w = Inr (n, w')"
  by (simp add: faker_number_int_def draw_def)

lemma arrayElement_Inr:
  "arrayElement xs w = Inr (x, w') \<Longrightarrow> x \<in> set xs"
  by (auto simp: arrayElement_def arrayIndex_def draw_def split: if_splits)

lemma arrayElement_total:
  "xs \<noteq> [] \<Longrightarrow> \<exists>x w'. arrayElement xs w = Inr (x, w')"
  by (simp add: arrayElement_def arrayIndex_def draw_def)

lemma generateOrders_entry_Inr:
  assumes "generateOrders_entry nm dt startDate customerCount idx w = Inr (order, w')"
  shows "order_id order = int idx + 1 \<and>
         1 \<le> customer_id order \<and> customer_id order \<le> customerCount \<and>
         total_amount order = num_of_int nm 0 \<and>
         (\<exists>t. order_date order = toISOString dt t)"
  using assms
  by (auto simp: generateOrders_entry_def split: prod.splits sum.splits
           dest: faker_number_int_Inr)

lemma generateOrders_Inr:
  assumes "generateOrders nm dt count customerCount w = Inr (orders, w')"
  shows "length orders = nat count \<and>
         (\<forall>k<nat count. order_id (orders ! k) = int k + 1 \<and>
           1 \<le> customer_id (orders ! k) \<and> customer_id (orders ! k) \<le> customerCount \<and>
           total_amount (orders ! k) = num_of_int nm 0 \<and>
           (\<exists>t. order_date (orders ! k) = toISOString dt t))"
proof -
  from assms obtain startDate w0 where
    "Array_from_loop (generateOrders_entry nm dt startDate customerCount) 0 (nat count) w0
       = Inr (orders, w')"
    by (auto simp: generateOrders_def Array_from_def Let_def split: prod.splits)
  then have "length orders = nat count \<and>
    (\<forall>k<nat count.
       (\<lambda>i order. order_id order = int i + 1 \<and>
         1 \<le> customer_id order \<and> customer_id order \<le> customerCount \<and>
         total_amount order = num_of_int nm 0 \<and>
         (\<exists>t. order_date order = toISOString dt t)) (0 + k) (orders ! k))"
    by (rule Array_from_loop_Inr) (rule generateOrders_entry_Inr)
  then show ?thesis by simp
qed

lemma generateOrders_total:
  assumes "1 \<le> customerCount"
    and "\<forall>k. minus_one_year dt (clock w 0) \<le> clock w (Suc k)"
  shows "\<exists>orders w'. generateOrders nm dt count customerCount w = Inr (orders, w')"
proof -
  define startDate where "startDate = minus_one_year dt (clock w 0)"
  define w0 where "w0 = w\<lparr>clock := (\<lambda>n. clock w (Suc n))\<rparr>"
  let ?Q = "\<lambda>v. \<forall>k. startDate \<le> clock v k"
  have "?Q w0" using assms(2) by (simp add: w0_def startDate_def)
  moreover have "\<exists>x v'. generateOrders_entry nm dt startDate customerCount i v = Inr (x, v') \<and> ?Q v'"
    if "?Q v" for i v
  proof -
    from that have "\<not> clock v 0 < startDate" by (simp add: not_less)
    with that assms(1) show ?thesis
      by (auto simp: generateOrders_entry_def Date_now_def faker_date_between_def
            faker_number_int_def draw_def)
  qed
  ultimately have "\<exists>xs w'. Array_from_loop (generateOrders_entry nm dt startDate customerCount)
                       0 (nat count) w0 = Inr (xs, w')"
    by (rule Array_from_loop_total [where Q = ?Q])
  then show ?thesis
    by (simp add: generateOrders_def Array_from_def Date_now_def startDate_def w0_def)
qed


lemma generatePayments_entry_Inr:
  assumes "generatePayments_entry dt order idx w = Inr (p, w')"
  shows "payment_id p = int idx + 1 \<and> pay_order_id p = order_id order \<and>
         payment_status p \<in> set paymentStatuses \<and> payment_method p \<in> set paymentMethods \<and>
         (\<exists>t. payment_date p = toISOString dt t \<and>
              (if payment_status p = ''Pending'' then t = new_Date dt (order_date order)
               else new_Date dt (order_date order) \<le> t \<and>
                    t \<le> new_Date dt (order_date order) + 604800000))"
proof -
  from assms obtain status w1 paymentDate w2 paymentMethod where
    st: "arrayElement paymentStatuses w = Inr (status, w1)" and
    pd: "(if status = ''Pending'' then Inr (new_Date dt (order_date order), w1)
          else faker_date_between (new_Date dt (order_date order))
                 (new_Date dt (order_date order) + 7 * 24 * 60 * 60 * 1000) w1)
           = Inr (paymentDate, w2)" and
    pm: "arrayElement paymentMethods w2 = Inr (paymentMethod, w')" and
    p: "p = \<lparr>payment_id = int idx + 1, pay_order_id = order_id order,
              payment_method = paymentMethod, payment_status = status,
              payment_date = toISOString dt paymentDate\<rparr>"
    by (auto simp: generatePayments_entry_def Let_def split: sum.splits)
  have "if status = ''Pending'' then paymentDate = new_Date dt (order_date order)
        else new_Date dt (order_date order) \<le> paymentDate \<and>
             paymentDate \<le> new_Date dt (order_date order) + 604800000"
    using pd by (auto simp: faker_date_between_def split: if_splits dest: faker_number_int_Inr)
  with arrayElement_Inr [OF st] arrayElement_Inr [OF pm] p show ?thesis
    by (auto intro!: exI [of _ paymentDate])
qed

lemma generatePayments_entry_total:
  "\<exists>p w'. generatePayments_entry dt order idx w = Inr (p, w')"
proof -
  obtain status w1 where st: "arrayElement paymentStatuses w = Inr (status, w1)"
    using arrayElement_total [of paymentStatuses w] by (auto simp: paymentStatuses_def)
  have "\<exists>paymentDate w2.
          (if status = ''Pending'' then Inr (new_Date dt (order_date order), w1)
           else faker_date_between (new_Date dt (order_date order))
                  (new_Date dt (order_date order) + 7 * 24 * 60 * 60 * 1000) w1)
            = Inr (paymentDate, w2)"
    using faker_number_int_total [of "new_Date dt (order_date order)"
            "new_Date dt (order_date order) + 604800000" w1]
    by (simp add: faker_date_between_def)
  then obtain paymentDate w2 where
    pd: "(if status = ''Pending'' then Inr (new_Date dt (order_date order), w1)
          else faker_date_between (new_Date dt (order_date order))
                 (new_Date dt (order_date order) + 7 * 24 * 60 * 60 * 1000) w1)
           = Inr (paymentDate, w2)"
    by blast
  obtain paymentMethod w3 where pm: "arrayElement paymentMethods w2 = Inr (paymentMethod, w3)"
    using arrayElement_total [of paymentMethods w2] by (auto simp: paymentMethods_def)
  from st pd pm show ?thesis
    by (simp add: generatePayments_entry_def Let_def)
qed

lemma generatePayments_total:
  "\<exists>payments w'. generatePayments dt orders w = Inr (payments, w')"
  unfolding generatePayments_def Array_map_def
  by (rule Array_map_loop_total) (rule generatePayments_entry_total)

lemma generatePayments_Inr:
  assumes "generatePayments dt orders w = Inr (payments, w')"
  shows "length payments = length orders \<and>
         (\<forall>k<length orders.
            payment_id (payments ! k) = int k + 1 \<and>
            pay_order_id (payments ! k) = order_id (orders ! k) \<and>
            payment_status (payments ! k) \<in> set paymentStatuses \<and>
            payment_method (payments ! k) \<in> set paymentMethods \<and>
            (\<exists>t. payment_date (payments ! k) = toISOString dt t \<and>
               (if payment_status (payments ! k) = ''Pending''
                then t = new_Date dt (order_date (orders ! k))
                else new_Date dt (order_date (orders ! k)) \<le> t \<and>
                     t \<le> new_Date dt (order_date (orders ! k)) + 604800000)))"
proof -
  from assms have "Array_map_loop (generatePayments_entry dt) 0 orders w = Inr (payments, w')"
    by (simp add: generatePayments_def Array_map_def)
  then have "length payments = length orders \<and>
    (\<forall>k<length orders.
       (\<lambda>order i p.
         payment_id p = int i + 1 \<and> pay_order_id p = order_id order \<and>
         payment_status p \<in> set paymentStatuses \<and> payment_method p \<in> set paymentMethods \<and>
         (\<exists>t. payment_date p = toISOString dt t \<and>
              (if payment_status p = ''Pending'' then t = new_Date dt (order_date order)
               else new_Date dt (order_date order) \<le> t \<and>
                    t \<le> new_Date dt (order_date order) + 604800000)))
       (orders ! k) (0 + k) (payments ! k))"
    by (rule Array_map_loop_Inr) (rule generatePayments_entry_Inr)
  then show ?thesis by simp
qed

text \<open>
  Claim C8. generatePayments returns one payment per order, in the order of the array. A
  payment whose status is Pending carries the order's own \<open>order_date\<close>; a payment
  with another status carries an instant that is not before the order's and at most seven
  days after it. The order dates are texts that \<open>toISOString\<close> writes, as those of
  generateOrders are: reading such a text and writing it again gives the same text.
\<close>

theorem generatePayments_dates:
  assumes "\<forall>order \<in> set orders. toISOString dt (new_Date dt (order_date order)) = order_date order"
    and "\<forall>t. new_Date dt (toISOString dt t) = t"
  shows "\<exists>payments w'.
           generatePayments dt orders w = Inr (payments, w') \<and>
           length payments = length orders \<and>
           (\<forall>k<length orders.
              pay_order_id (payments ! k) = order_id (orders ! k) \<and>
              (payment_status (payments ! k) = ''Pending'' \<longrightarrow>
                 payment_date (payments ! k) = order_date (orders ! k)) \<and>
              (payment_status (payments ! k) \<noteq> ''Pending'' \<longrightarrow>
                 new_Date dt (order_date (orders ! k)) \<le> new_Date dt (payment_date (payments ! k)) \<and>
                 new_Date dt (payment_date (payments ! k))
                   \<le> new_Date dt (order_date (orders ! k)) + 7 * 24 * 60 * 60 * 1000))"
proof -
  from generatePayments_total obtain payments w' where
    g: "generatePayments dt orders w = Inr (payments, w')" by blast
  note r = generatePayments_Inr [OF g]
  have "pay_order_id (payments ! k) = order_id (orders ! k) \<and>
              (payment_status (payments ! k) = ''Pending'' \<longrightarrow>
                 payment_date (payments ! k) = order_date (orders ! k)) \<and>
              (payment_status (payments ! k) \<noteq> ''Pending'' \<longrightarrow>
                 new_Date dt (order_date (orders ! k)) \<le> new_Date dt (payment_date (payments ! k)) \<and>
                 new_Date dt (payment_date (payments ! k))
                   \<le> new_Date dt (order_date (orders ! k)) + 7 * 24 * 60 * 60 * 1000)"
    if k: "k < length orders" for k
  proof -
    from r k obtain t where
      oid: "pay_order_id (payments ! k) = order_id (orders ! k)" and
      pd: "payment_date (payments ! k) = toISOString dt t" and
      t: "if payment_status (payments ! k) = ''Pending''
          then t = new_Date dt (order_date (orders ! k))
          else new_Date dt (order_date (orders ! k)) \<le> t \<and>
               t \<le> new_Date dt (order_date (orders ! k)) + 604800000"
      by blast
    from k assms(1) have
      c: "toISOString dt (new_Date dt (order_date (orders ! k))) = order_date (orders ! k)"
      by simp
    from assms(2) pd have b: "new_Date dt (payment_date (payments ! k)) = t" by simp
    show ?thesis
    proof (cases "payment_status (payments ! k) = ''Pending''")
      case True
      with t pd c oid show ?thesis by simp
    next
      case False
      with t b oid show ?thesis by simp
    qed
  qed
  with g r show ?thesis by blast
qed

theorem generatePayments_dates_witness:
  "list_all (\<lambda>order. toISOString epoch_ms (new_Date epoch_ms (order_date order))
                      = order_date order) sample_orders \<and>
   (\<forall>t. new_Date epoch_ms (toISOString epoch_ms t) = t) \<and>
   (\<exists>payments w'.
      generatePayments epoch_ms sample_orders sample_world = Inr (payments, w') \<and>
      length payments = length sample_orders \<and>
      (\<forall>k<length sample_orders.
         pay_order_id (payments ! k) = order_id (sample_orders ! k) \<and>
         (payment_status (payments ! k) = ''Pending'' \<longrightarrow>
            payment_date (payments ! k) = order_date (sample_orders ! k)) \<and>
         (payment_status (payments ! k) \<noteq> ''Pending'' \<longrightarrow>
            new_Date epoch_ms (order_date (sample_orders ! k))
              \<le> new_Date epoch_ms (payment_date (payments ! k)) \<and>
            new_Date epoch_ms (payment_date (payments ! k))
              \<le> new_Date epoch_ms (order_date (sample_orders ! k)) + 7 * 24 * 60 * 60 * 1000)))"
  using generatePayments_dates [of sample_orders epoch_ms sample_world]
  by (simp add: epoch_ms_def list_all_iff)


text \<open>
  Claim C1. With at least one customer, at least one order requested and at least one
  product (and a clock that does not fall back behind the start of the window), the three
  generators return and the dataset is referentially intact: the \<open>customer_id\<close> of
  every order lies in \<open>[1, customerCount]\<close>, every item refers to a generated order
  and to a product of the list, and every payment refers to a generated order.
\<close>

theorem referential_integrity:
  assumes "1 \<le> customerCount" and "1 \<le> count" and "products \<noteq> []"
    and "\<forall>k. minus_one_year dt (clock w 0) \<le> clock w (Suc k)"
  shows "\<exists>orders w1 items orders' w2 payments w3.
           generateOrders nm dt count customerCount w = Inr (orders, w1) \<and>
           generateOrderItems nm orders products targetCount w1 = Inr (items, orders', w2) \<and>
           generatePayments dt orders' w2 = Inr (payments, w3) \<and>
           (\<forall>order \<in> set orders'. 1 \<le> customer_id order \<and> customer_id order \<le> customerCount) \<and>
           (\<forall>it \<in> set items. oi_order_id it \<in> order_id ` set orders' \<and>
                                oi_product_id it \<in> product_id ` set products) \<and>
           (\<forall>p \<in> set payments. pay_order_id p \<in> order_id ` set orders')"
proof -
  from generateOrders_total [OF assms(1,4)] obtain orders w1 where
    go: "generateOrders nm dt count customerCount w = Inr (orders, w1)" by blast
  note o = generateOrders_Inr [OF go]
  from o assms(2) have ne: "orders \<noteq> []" by auto
  from generateOrderItems_total [OF assms(3) ne] obtain items orders' w2 where
    gi: "generateOrderItems nm orders products targetCount w1 = Inr (items, orders', w2)"
    by blast
  note r = generateOrderItems_refs [OF gi]
  from generatePayments_total obtain payments w3 where
    gp: "generatePayments dt orders' w2 = Inr (payments, w3)" by blast
  note p = generatePayments_Inr [OF gp]
  have cust: "\<forall>c \<in> set (map customer_id orders). 1 \<le> c \<and> c \<le> customerCount"
    using o by (auto simp: in_set_conv_nth)
  have "\<forall>c \<in> set (map customer_id orders'). 1 \<le> c \<and> c \<le> customerCount"
    using cust by (simp only: r(2))
  then have 1: "\<forall>order \<in> set orders'. 1 \<le> customer_id order \<and> customer_id order \<le> customerCount"
    by simp
  have "set (map order_id orders') = set (map order_id orders)" by (simp only: r(1))
  then have ids: "order_id ` set orders' = order_id ` set orders" by simp
  have 2: "\<forall>it \<in> set items. oi_order_id it \<in> order_id ` set orders' \<and>
                                oi_product_id it \<in> product_id ` set products"
    using r(4) by (simp only: ids)
  have 3: "\<forall>p \<in> set payments. pay_order_id p \<in> order_id ` set orders'"
  proof
    fix q assume "q \<in> set payments"
    then obtain k where k: "k < length payments" "q = payments ! k"
      by (auto simp: in_set_conv_nth)
    with p have "k < length orders'" "pay_order_id q = order_id (orders' ! k)" by simp_all
    then show "pay_order_id q \<in> order_id ` set orders'" by simp
  qed
  from go gi gp 1 2 3 show ?thesis by blast
qed

theorem referential_integrity_witness:
  "(1::int) \<le> 3 \<and> (1::int) \<le> 2 \<and> sample_products \<noteq> [] \<and>
   (\<forall>k. minus_one_year epoch_ms (clock sample_world 0) \<le> clock sample_world (Suc k)) \<and>
   (\<exists>orders w1 items orders' w2 payments w3.
      generateOrders cents epoch_ms 2 3 sample_world = Inr (orders, w1) \<and>
      generateOrderItems cents orders sample_products 4 w1 = Inr (items, orders', w2) \<and>
      generatePayments epoch_ms orders' w2 = Inr (payments, w3) \<and>
      (\<forall>order \<in> set orders'. 1 \<le> customer_id order \<and> customer_id order \<le> 3) \<and>
      (\<forall>it \<in> set items. oi_order_id it \<in> order_id ` set orders' \<and>
                           oi_product_id it \<in> product_id ` set sample_products) \<and>
      (\<forall>p \<in> set payments. pay_order_id p \<in> order_id ` set orders'))"
  using referential_integrity [of 3 2 sample_products epoch_ms sample_world cents 4]
  by (simp add: sample_products_def sample_world_def epoch_ms_def)

lemma cents_sample_prices:
  "cents_Number ''12.50'' = 1250" "cents_toFixed 1250 2 = ''12.50''"
  "cents_Number ''7.99'' = 799" "cents_toFixed 799 2 = ''7.99''"
  by (simp_all add: cents_Number_def cents_toFixed_def is_digit_def digit_val_def
        string_of_nat.simps digit_char_def)

text \<open>
  Claim C2. Let the orders have distinct ids and a total of 0 (as generateOrders makes
  them) and let every product price be a text of two decimals, that is, one that
  \<open>Number\<close> reads to the same number after \<open>toFixed(2)\<close> has rewritten it (as
  generateProducts makes them). Then generateOrderItems returns and the final
  \<open>total_amount\<close> of every order is the \<open>toFixed(2)\<close> text of the sum, over the
  items of that order in the order of their creation, of \<open>quantity * unit_price\<close>,
  with the very additions and multiplications of the running total: the two agree
  exactly, whatever the arithmetic of numbers rounds.
\<close>

theorem order_totals_match_items:
  assumes "orders \<noteq> []" and "products \<noteq> []"
    and "distinct (map order_id orders)"
    and "\<forall>order \<in> set orders. total_amount order = num_of_int nm 0"
    and "\<forall>p \<in> set products. Number nm (toFixed nm (Number nm (price p)) 2) = Number nm (price p)"
  shows "\<exists>items orders' w'.
           generateOrderItems nm orders products targetCount w = Inr (items, orders', w') \<and>
           length orders' = length orders \<and>
           (\<forall>k<length orders.
              order_id (orders' ! k) = order_id (orders ! k) \<and>
              total_amount (orders' ! k)
                = toFixed nm (sum_items nm (order_id (orders ! k)) items) 2)"
proof -
  from generateOrderItems_total [OF assms(2,1)] obtain items orders' w' where
    g: "generateOrderItems nm orders products targetCount w = Inr (items, orders', w')"
    by blast
  note r = generateOrderItems_refs [OF g]
  note t = generateOrderItems_totals [OF g assms(3,5)]
  from r(1) have len: "length orders' = length orders" by (metis length_map)
  have "order_id (orders' ! k) = order_id (orders ! k) \<and>
        total_amount (orders' ! k) = toFixed nm (sum_items nm (order_id (orders ! k)) items) 2"
    if k: "k < length orders" for k
  proof -
    have "order_id (orders' ! k) = map order_id orders' ! k" using k len by simp
    also have "\<dots> = order_id (orders ! k)" using k by (simp add: r(1))
    finally have a: "order_id (orders' ! k) = order_id (orders ! k)" .
    from k assms(4) have "total_amount (orders ! k) = num_of_int nm 0" by simp
    with t k have "total_amount (orders' ! k)
                     = toFixed nm (sum_items nm (order_id (orders ! k)) items) 2"
      by (simp add: sum_items_def)
    with a show ?thesis by simp
  qed
  with g len show ?thesis by blast
qed

theorem order_totals_match_items_witness:
  "sample_orders \<noteq> [] \<and> sample_products \<noteq> [] \<and>
   distinct (map order_id sample_orders) \<and>
   list_all (\<lambda>order. total_amount order = num_of_int cents 0) sample_orders \<and>
   list_all (\<lambda>p. Number cents (toFixed cents (Number cents (price p)) 2)
                    = Number cents (price p)) sample_products \<and>
   (\<exists>items orders' w'.
      generateOrderItems cents sample_orders sample_products 3 sample_world
        = Inr (items, orders', w') \<and>
      length orders' = length sample_orders \<and>
      (\<forall>k<length sample_orders.
         order_id (orders' ! k) = order_id (sample_orders ! k) \<and>
         total_amount (orders' ! k)
           = toFixed cents (sum_items cents (order_id (sample_orders ! k)) items) 2))"
proof -
  have prices: "\<forall>p \<in> set sample_products.
      Number cents (toFixed cents (Number cents (price p)) 2) = Number cents (price p)"
    by (simp add: sample_products_def cents_def cents_sample_prices)
  have totals: "\<forall>order \<in> set sample_orders. total_amount order = num_of_int cents 0"
    by (simp add: sample_orders_def cents_def)
  have ne: "sample_orders \<noteq> []" "sample_products \<noteq> []"
    and dist: "distinct (map order_id sample_orders)"
    by (simp_all add: sample_orders_def sample_products_def)
  from order_totals_match_items [OF ne dist totals prices, of 3 sample_world]
    ne dist totals prices
  show ?thesis by (simp add: list_all_iff)
qed
section \<open>Properties of the serializer and of the converters\<close>

lemma replace_quotes_no_quote: "quote \<notin> set s \<Longrightarrow> replace_quotes s = s"
  by (induction s) (auto simp: replace_quotes_def)

text \<open>
  Claim C9, amended. \<open>null\<close> and \<open>undefined\<close> are written as the empty text.
  For every other value, escapeCsvValue writes the text of the value between two quote
  characters, with every quote of the text doubled, if the text contains a comma, a quote
  or a line feed, and writes the text unchanged otherwise; so its result is a text between
  two quotes exactly when the text of the value contains one of the three characters.
\<close>

theorem escapeCsvValue_cases:
  "escapeCsvValue JNull = '''' \<and> escapeCsvValue JUndefined = '''' \<and>
   (v \<noteq> JNull \<and> v \<noteq> JUndefined \<longrightarrow>
      escapeCsvValue v =
        (if \<exists>c \<in> set (String_value v). c = comma \<or> c = quote \<or> c = newline
         then quote # concat (map (\<lambda>c. if c = quote then [quote, quote] else [c])
                                (String_value v)) @ [quote]
         else String_value v) \<and>
      ((\<exists>inner. escapeCsvValue v = quote # inner @ [quote])
         \<longleftrightarrow> (\<exists>c \<in> set (String_value v). c = comma \<or> c = quote \<or> c = newline)))"
proof -
  have a: "escapeCsvValue JNull = ''''" "escapeCsvValue JUndefined = ''''"
    by (simp_all add: escapeCsvValue_def)
  have b: "escapeCsvValue v =
        (if \<exists>c \<in> set (String_value v). c = comma \<or> c = quote \<or> c = newline
         then quote # concat (map (\<lambda>c. if c = quote then [quote, quote] else [c])
                                (String_value v)) @ [quote]
         else String_value v)" if "v \<noteq> JNull" "v \<noteq> JUndefined"
    using that
    by (auto simp: escapeCsvValue_def test_special_def replace_quotes_def list_ex_iff Let_def)
  have c: "(\<exists>inner. escapeCsvValue v = quote # inner @ [quote])
         \<longleftrightarrow> (\<exists>c \<in> set (String_value v). c = comma \<or> c = quote \<or> c = newline)"
    if v: "v \<noteq> JNull" "v \<noteq> JUndefined"
  proof (cases "\<exists>c \<in> set (String_value v). c = comma \<or> c = quote \<or> c = newline")
    case True
    with b [OF v] show ?thesis by auto
  next
    case False
    then have e: "escapeCsvValue v = String_value v" using b [OF v] by simp
    from False have "quote \<notin> set (String_value v)" by blast
    then have "\<not> (\<exists>inner. String_value v = quote # inner @ [quote])" by auto
    with False e show ?thesis by simp
  qed
  from a b c show ?thesis by blast
qed

theorem escapeCsvValue_cases_witness:
  "JStr ''a,b'' \<noteq> JNull \<and> JStr ''a,b'' \<noteq> JUndefined \<and>
   escapeCsvValue (JStr ''a,b'') = quote # ''a,b'' @ [quote] \<and>
   (\<exists>inner. escapeCsvValue (JStr ''a,b'') = quote # inner @ [quote])"
  using escapeCsvValue_cases [of "JStr ''a,b''"]
  by (simp add: comma_def quote_def newline_def)

text \<open>
  The claim as stated fails for \<open>null\<close>: its text, \<open>null\<close>, contains none of
  the three characters, and yet it is not written unchanged, but as the empty text.
\<close>

theorem escapeCsvValue_null_counterexample:
  "\<not> test_special (String_value JNull) \<and> String_value JNull = ''null'' \<and>
   escapeCsvValue JNull = '''' \<and> escapeCsvValue JNull \<noteq> String_value JNull"
  by (simp add: escapeCsvValue_def test_special_def comma_def quote_def newline_def)

lemma parseInt_None_iff:
  "parseInt value = None \<longleftrightarrow> takeWhile is_digit (strip_sign (dropWhile is_space value)) = []"
  by (simp add: parseInt_def Let_def)

lemma toInteger_Inl_iff:
  "(\<exists>e. toInteger value fieldName = Inl e) \<longleftrightarrow>
     takeWhile is_digit (strip_sign (dropWhile is_space value)) = []"
  by (auto simp: toInteger_def parseInt_def Let_def split: option.splits)

lemma convert_entries_fails:
  assumes "convert_entries converters entries1 = Inr vs"
    and "converters key = Some converter"
    and "converter value = Inl e"
  shows "convert_entries converters (entries1 @ (key, value) # entries2) = Inl e"
  using assms(1)
proof (induction entries1 arbitrary: vs)
  case Nil
  then show ?case using assms(2,3) by simp
next
  case (Cons entry rest)
  obtain k v where entry: "entry = (k, v)" by (cases entry)
  from Cons.prems obtain vs' where "convert_entries converters rest = Inr vs'"
    by (auto simp: entry split: sum.splits)
  from Cons.IH [OF this] Cons.prems show ?case
    by (auto simp: entry split: sum.splits)
qed

lemma load_rows_fails:
  assumes "\<forall>raw \<in> set before. \<exists>row. convert_entries converters raw = Inr row"
    and "convert_entries converters bad = Inl e"
  shows "load_rows fileName converters (before @ bad # after) rows =
           Inl (Error (''Failed to convert row in '' @ fileName @ '': '' @ error_message e))"
  using assms(1)
proof (induction before arbitrary: rows)
  case Nil
  then show ?case using assms(2) by simp
next
  case (Cons raw rest)
  then obtain row where "convert_entries converters raw = Inr row" by auto
  with Cons show ?case by simp
qed

text \<open>
  What the guard of the converters rejects: a text in which parseInt or parseFloat finds no
  number at all. The error names the field and quotes the text, and loadCsv rejects with
  it, naming the file: no later row is read and no row is returned.
\<close>

lemma toInteger_raises:
  assumes "takeWhile is_digit (strip_sign (dropWhile is_space raw)) = []"
  shows "toInteger raw fieldName =
           Inl (Error (''Invalid integer value for '' @ fieldName @ '': '' @ [quote] @ raw @ [quote]))"
proof -
  from assms have "parseInt raw = None" by (simp only: parseInt_None_iff)
  then show ?thesis by (simp add: toInteger_def invalid_message_def)
qed

lemma toFloat_raises:
  assumes "\<not> has_decimal_prefix raw"
  shows "toFloat value_of raw fieldName =
           Inl (Error (''Invalid numeric value for '' @ fieldName @ '': '' @ [quote] @ raw @ [quote]))"
  using assms by (simp add: toFloat_def parseFloat_def invalid_message_def)

lemma loadCsv_rejects:
  assumes p: "csv_parser content = before @ (entries1 @ (key, raw) # entries2) # after"
    and b: "\<forall>raw \<in> set before. \<exists>row. convert_entries converters raw = Inr row"
    and e: "convert_entries converters entries1 = Inr vs"
    and c: "converters key = Some converter" "converter raw = Inl (Error message)"
  shows "loadCsv fileName converters content =
           Inl (Error (''Failed to convert row in '' @ fileName @ '': '' @ message))"
proof -
  from convert_entries_fails [OF e c]
  have "convert_entries converters (entries1 @ (key, raw) # entries2) = Inl (Error message)" .
  from load_rows_fails [OF b this] show ?thesis
    by (simp add: loadCsv_def p)
qed

text \<open>
  Claim C7. A non-numeric text in a numeric field is to make the converter raise an error
  that names the field and the text, and loadCsv reject. Both converters test what parseInt
  and parseFloat return for NaN and raise \<open>Invalid integer value\<close> or
  \<open>Invalid numeric value\<close>, as they do for \<open>abc\<close>. But parseInt and parseFloat read a
  numeric prefix and ignore what follows it, so the test lets through a text that only begins
  with a numeral: \<open>12abc\<close> and \<open>7.5kg\<close> are not numerals, no error is raised for them,
  and a row of orders.csv whose customer_id is \<open>12abc\<close> is loaded as an order of
  customer 12.
\<close>

theorem converters_accept_prefix:
  "toInteger ''abc'' ''customer_id'' =
     Inl (Error (''Invalid integer value for customer_id: '' @ [quote] @ ''abc'' @ [quote])) \<and>
   \<not> decimal_numeral ''12abc'' \<and> toInteger ''12abc'' ''customer_id'' = Inr 12 \<and>
   \<not> decimal_numeral ''7.5kg'' \<and>
   toFloat value_of ''7.5kg'' ''unit_price'' = Inr (value_of ''7.5kg'') \<and>
   loadCsv ''orders.csv'' (orders_converters cents_Number)
       ''order_id,customer_id\<newline>1,12abc'' =
     Inr [[(''order_id'', CInt 1), (''customer_id'', CInt 12)]]"
proof -
  have 1: "toInteger ''abc'' ''customer_id'' =
      Inl (Error (''Invalid integer value for customer_id: '' @ [quote] @ ''abc'' @ [quote]))"
    by code_simp
  have 2: "\<not> decimal_numeral ''12abc''" "\<not> decimal_numeral ''7.5kg''" by code_simp+
  have 3: "toInteger ''12abc'' ''customer_id'' = Inr 12" by code_simp
  have "has_decimal_prefix ''7.5kg''" by code_simp
  then have 4: "toFloat value_of ''7.5kg'' ''unit_price'' = Inr (value_of ''7.5kg'')"
    by (simp add: toFloat_def parseFloat_def)
  have 5: "loadCsv ''orders.csv'' (orders_converters cents_Number)
       ''order_id,customer_id\<newline>1,12abc'' =
     Inr [[(''order_id'', CInt 1), (''customer_id'', CInt 12)]]"
    by code_simp
  from 1 2 3 4 5 show ?thesis by simp
qed
section \<open>Writing records and reading them back\<close>




































lemma load_rows_all:
  assumes "\<forall>raw \<in> set raws. convert_entries converters raw = Inr (f raw)"
  shows "load_rows fileName converters raws rows = Inr (rows @ map f raws)"
  using assms by (induction raws arbitrary: rows) simp_all



section \<open>Properties of createTables and insertData\<close>

lemma runQuery_drop:
  "runQuery check db (DROP_TABLE True name)
     = Inr (db\<lparr>tables := filter (\<lambda>(n, t). n \<noteq> name) (tables db)\<rparr>)"
proof (cases "has_table db name")
  case True
  then show ?thesis by simp
next
  case False
  then have "filter (\<lambda>(n, t). n \<noteq> name) (tables db) = tables db"
    by (force simp: has_table_def filter_id_conv)
  with False show ?thesis by simp
qed

lemma run_drops:
  "run_statements check db (map (DROP_TABLE True) names)
     = Inr (db\<lparr>tables := filter (\<lambda>(n, t). n \<notin> set names) (tables db)\<rparr>)"
proof (induction names arbitrary: db)
  case Nil
  then show ?case by simp
next
  case (Cons name names)
  have "filter (\<lambda>(n, t). n \<notin> set names) (filter (\<lambda>(n, t). n \<noteq> name) (tables db))
          = filter (\<lambda>(n, t). n \<notin> set (name # names)) (tables db)"
    by (induction "tables db") (auto simp: filter_filter intro!: filter_cong)
  then show ?case
    by (simp add: runQuery_drop Cons.IH del: runQuery.simps)
qed

lemma run_creates:
  assumes "distinct (map fst defs)"
    and "\<forall>n \<in> set (map fst defs). \<not> has_table db n"
  shows "run_statements check db (map (\<lambda>(n, d). CREATE_TABLE True n d) defs)
     = Inr (db\<lparr>tables := tables db @ map (\<lambda>(n, d). (n, \<lparr>tbl_def = d, tbl_rows = []\<rparr>)) defs\<rparr>)"
  using assms
proof (induction defs arbitrary: db)
  case Nil
  then show ?case by simp
next
  case (Cons nd defs)
  obtain n d where nd: "nd = (n, d)" by (cases nd)
  let ?db = "db\<lparr>tables := tables db @ [(n, \<lparr>tbl_def = d, tbl_rows = []\<rparr>)]\<rparr>"
  from Cons.prems have 1: "runQuery check db (CREATE_TABLE True n d) = Inr ?db"
    by (simp add: nd)
  from Cons.prems have "distinct (map fst defs)"
    and "\<forall>m \<in> set (map fst defs). \<not> has_table ?db m"
    by (auto simp: nd has_table_def)
  from Cons.IH [OF this] 1 show ?case by (simp add: nd)
qed

lemma dropStatements_eq:
  "dropStatements = map (DROP_TABLE True)
     [''payments'', ''order_items'', ''orders'', ''products'', ''customers'']"
  by (simp add: dropStatements_def)

lemma createStatements_eq:
  "createStatements = map (\<lambda>(n, d). CREATE_TABLE True n d)
     [(''customers'', customers_def), (''products'', products_def), (''orders'', orders_def),
      (''order_items'', order_items_def), (''payments'', payments_def)]"
  by (simp add: createStatements_def)

lemma other_tables_eq:
  "filter (\<lambda>(n, t). n \<notin> set [''payments'', ''order_items'', ''orders'', ''products'', ''customers''])
     ts = other_tables ts"
  unfolding other_tables_def table_names_def
  by (rule filter_cong) auto

lemma createTables_result:
  "createTables check db = Inr (db\<lparr>tables := other_tables (tables db) @ empty_tables\<rparr>)"
proof -
  let ?db = "db\<lparr>tables := other_tables (tables db)\<rparr>"
  have d: "run_statements check db dropStatements = Inr ?db"
    by (simp only: dropStatements_eq run_drops other_tables_eq)
  have "\<forall>n \<in> set table_names. \<not> has_table ?db n"
    by (auto simp: has_table_def other_tables_def)
  then have "\<forall>n \<in> set (map fst [(''customers'', customers_def), (''products'', products_def),
      (''orders'', orders_def), (''order_items'', order_items_def), (''payments'', payments_def)]).
      \<not> has_table ?db n"
    by (simp add: table_names_def)
  moreover have "distinct (map fst [(''customers'', customers_def), (''products'', products_def),
      (''orders'', orders_def), (''order_items'', order_items_def), (''payments'', payments_def)])"
    by simp
  ultimately have "run_statements check ?db createStatements
     = Inr (?db\<lparr>tables := tables ?db @ map (\<lambda>(n, d). (n, \<lparr>tbl_def = d, tbl_rows = []\<rparr>))
         [(''customers'', customers_def), (''products'', products_def),
      (''orders'', orders_def), (''order_items'', order_items_def), (''payments'', payments_def)]\<rparr>)"
    unfolding createStatements_eq by (rule run_creates [rotated])
  then have c: "run_statements check ?db createStatements
     = Inr (db\<lparr>tables := other_tables (tables db) @ empty_tables\<rparr>)"
    by (simp add: empty_tables_def)
  show ?thesis by (simp add: createTables_def d c)
qed

lemma other_tables_idem:
  "other_tables (other_tables ts @ empty_tables) = other_tables ts"
  by (simp add: other_tables_def empty_tables_def table_names_def)

lemma program_store_other:
  assumes "program_store db"
  shows "other_tables (tables db) = []"
proof -
  have "n \<in> set table_names" if "(n, t) \<in> set (tables db)" for n t
  proof -
    from assms that have "(n, tbl_def t) \<in> set declared_tables"
      by (auto simp: program_store_def list_all_iff)
    then show ?thesis by (auto simp: declared_tables_def table_names_def)
  qed
  then show ?thesis by (auto simp: other_tables_def filter_empty_conv)
qed

lemma program_store_empty_tables:
  "program_store (db\<lparr>tables := empty_tables\<rparr>)"
  by (simp add: program_store_def empty_tables_def declared_tables_def)

text \<open>
  Claim C6. On a store of the program, whatever rows it holds, createTables does not
  raise: in particular there is no error for a table that is already there. It leaves
  exactly the five tables, as declared (primary keys and foreign keys as in the
  statements) and empty. Run on its own result it returns that same store, and it
  returns that store from every store of the program: no row from before survives.
\<close>

theorem createTables_idempotent:
  assumes "program_store db"
  shows "\<exists>db1. createTables check db = Inr db1 \<and>
           createTables check db1 = Inr db1 \<and>
           tables db1 = empty_tables \<and>
           saved db1 = saved db \<and>
           program_store db1 \<and>
           (\<forall>db2. program_store db2 \<and> saved db2 = saved db
                  \<longrightarrow> createTables check db2 = Inr db1)"
proof -
  let ?db1 = "db\<lparr>tables := empty_tables\<rparr>"
  have r: "createTables check d = Inr (d\<lparr>tables := empty_tables\<rparr>)"
    if "program_store d" for d :: "'a database"
    using program_store_other [OF that] by (simp add: createTables_result)
  have 1: "createTables check db = Inr ?db1" by (rule r [OF assms])
  have p: "program_store ?db1" by (rule program_store_empty_tables)
  have 2: "createTables check ?db1 = Inr ?db1" using r [OF p] by simp
  have 3: "createTables check db2 = Inr ?db1"
    if "program_store db2" "saved db2 = saved db" for db2
    using r [OF that(1)] that(2) by simp
  from 1 2 3 p show ?thesis by simp
qed

theorem createTables_idempotent_witness:
  "program_store (fresh_database :: int option database) \<and>
   program_store loaded_store \<and>
   createTables sample_check (fresh_database :: int option database) = Inr created_store \<and>
   createTables sample_check created_store = Inr created_store \<and>
   createTables sample_check loaded_store = Inr created_store"
proof -
  have f: "program_store (fresh_database :: int option database)"
    by (simp add: program_store_def fresh_database_def)
  have l: "program_store loaded_store" by code_simp
  from createTables_idempotent [OF f, of sample_check]
  obtain db1 :: "int option database" where
    1: "createTables sample_check fresh_database = Inr db1" and
    2: "createTables sample_check db1 = Inr db1" and
    3: "tables db1 = empty_tables" and
    4: "saved db1 = saved (fresh_database :: int option database)" and
    5: "\<forall>db2. program_store db2 \<and> saved db2 = saved (fresh_database :: int option database)
                \<longrightarrow> createTables sample_check db2 = Inr db1"
    by blast
  from 3 4 have db1: "db1 = created_store"
    by (simp add: created_store_def fresh_database_def)
  have "saved loaded_store = saved (fresh_database :: int option database)"
    by (simp add: loaded_store_def fresh_database_def)
  with 5 l have "createTables sample_check loaded_store = Inr created_store"
    by (simp add: db1)
  with 1 2 db1 f l show ?thesis by simp
qed

lemma runQuery_insert_saved:
  "runQuery check db (INSERT_INTO name cols vals) = Inr db' \<Longrightarrow> saved db' = saved db"
  by (auto split: if_splits option.splits)

lemma insert_rows_saved:
  "insert_rows check db tableName cols rows = (thrown, db') \<Longrightarrow> saved db' = saved db"
proof (induction rows arbitrary: db)
  case Nil
  then show ?case by simp
next
  case (Cons row rest)
  show ?case
  proof (cases "runQuery check db (INSERT_INTO tableName cols (row_values cols row))")
    case (Inl e)
    with Cons.prems show ?thesis by simp
  next
    case (Inr d)
    with Cons.prems have "insert_rows check d tableName cols rest = (thrown, db')" by simp
    from Cons.IH [OF this] runQuery_insert_saved [OF Inr] show ?thesis by simp
  qed
qed

lemma insert_rows_tables:
  "insert_rows check db tableName cols rows = (None, db') \<Longrightarrow>
     tables db' = fold (\<lambda>r. insert_row tableName (row_values cols r)) rows (tables db)"
proof (induction rows arbitrary: db)
  case Nil
  then show ?case by simp
next
  case (Cons row rest)
  show ?case
  proof (cases "runQuery check db (INSERT_INTO tableName cols (row_values cols row))")
    case (Inl e)
    with Cons.prems show ?thesis by simp
  next
    case (Inr d)
    with Cons.prems have r: "insert_rows check d tableName cols rest = (None, db')" by simp
    from Inr have "tables d = insert_row tableName (row_values cols row) (tables db)"
      by (auto split: if_splits option.splits)
    with Cons.IH [OF r] show ?thesis by simp
  qed
qed

lemma insert_rows_stops:
  assumes "insert_rows check db tableName cols pre = (None, dbk)"
    and "runQuery check dbk (INSERT_INTO tableName cols (row_values cols row)) = Inl e"
  shows "insert_rows check db tableName cols (pre @ row # post) = (Some e, dbk)"
  using assms(1)
proof (induction pre arbitrary: db)
  case Nil
  then show ?case using assms(2) by simp
next
  case (Cons r rest)
  show ?case
  proof (cases "runQuery check db (INSERT_INTO tableName cols (row_values cols r))")
    case (Inl e')
    with Cons.prems show ?thesis by simp
  next
    case (Inr d)
    with Cons.prems have "insert_rows check d tableName cols rest = (None, dbk)" by simp
    from Cons.IH [OF this] Inr show ?thesis by simp
  qed
qed

lemma insertData_throws:
  assumes "saved db = None"
    and "insert_rows check (db\<lparr>saved := Some (tables db)\<rparr>) tableName cols rows = (Some e, db')"
  shows "insertData check db tableName cols rows = (Some e, db)"
proof -
  from assms(2) have ne: "rows \<noteq> []" by auto
  from insert_rows_saved [OF assms(2)] have s: "saved db' = Some (tables db)" by simp
  have "db'\<lparr>tables := tables db, saved := None\<rparr> = db"
    using assms(1) by simp
  with assms ne s show ?thesis
    by (simp add: insertData_def)
qed

lemma insertData_completes:
  assumes "saved db = None"
    and "insertData check db tableName cols rows = (None, db')"
  shows "saved db' = None \<and>
         tables db' = fold (\<lambda>r. insert_row tableName (row_values cols r)) rows (tables db)"
proof (cases "rows = []")
  case True
  with assms show ?thesis by (simp add: insertData_def)
next
  case False
  let ?db1 = "db\<lparr>saved := Some (tables db)\<rparr>"
  obtain thrown d where l: "insert_rows check ?db1 tableName cols rows = (thrown, d)"
    by (cases "insert_rows check ?db1 tableName cols rows")
  from insert_rows_saved [OF l] have s: "saved d = Some (tables db)" by simp
  show ?thesis
  proof (cases thrown)
    case None
    with l s assms False have "db' = d\<lparr>saved := None\<rparr>"
      by (simp add: insertData_def)
    with insert_rows_tables [of check ?db1 tableName cols rows d] l None show ?thesis by simp
  next
    case (Some e)
    with l s assms False show ?thesis by (simp add: insertData_def)
  qed
qed

text \<open>
  Claim C3. Let no transaction be open, let an earlier call of insertData have completed
  (its rows are then all in their table), and let a later call insert the rows before
  row k and see row k rejected. Then the later call throws the error of row k and leaves
  the database exactly as it found it: none of its rows remains, and the table loaded
  earlier is as full as before.
\<close>

theorem insertData_atomic:
  assumes "saved db0 = None"
    and "insertData check db0 earlier cols0 rows0 = (None, db)"
    and "insert_rows check (db\<lparr>saved := Some (tables db)\<rparr>) tableName cols before = (None, dbk)"
    and "runQuery check dbk (INSERT_INTO tableName cols (row_values cols row)) = Inl e"
  shows "insertData check db tableName cols (before @ row # after) = (Some e, db) \<and>
         saved db = None \<and>
         tables db = fold (\<lambda>r. insert_row earlier (row_values cols0 r)) rows0 (tables db0)"
proof -
  note c = insertData_completes [OF assms(1,2)]
  from insert_rows_stops [OF assms(3,4)] have
    "insert_rows check (db\<lparr>saved := Some (tables db)\<rparr>) tableName cols (before @ row # after)
       = (Some e, dbk)" .
  from insertData_throws [OF _ this] c show ?thesis by simp
qed

lemma loaded_store_run:
  "insertData sample_check created_store ''customers'' [''customer_id'', ''name'']
     [[(''customer_id'', 1), (''name'', 10)]] = (None, loaded_store)"
  "insert_rows sample_check (loaded_store\<lparr>saved := Some (tables loaded_store)\<rparr>)
       ''products'' [''product_id''] [[(''product_id'', 7)]]
     = (None, loaded_store\<lparr>tables := insert_row ''products'' [Some 7] (tables loaded_store),
                           saved := Some (tables loaded_store)\<rparr>)"
  "runQuery sample_check
       (loaded_store\<lparr>tables := insert_row ''products'' [Some 7] (tables loaded_store),
                           saved := Some (tables loaded_store)\<rparr>)
       (INSERT_INTO ''products'' [''product_id'']
          (row_values [''product_id''] [(''product_id'', 7)]))
     = Inl (Error ''UNIQUE constraint failed'')"
  by code_simp+

theorem insertData_atomic_witness:
  "saved created_store = None \<and>
   insertData sample_check created_store ''customers'' [''customer_id'', ''name'']
     [[(''customer_id'', 1), (''name'', 10)]] = (None, loaded_store) \<and>
   insertData sample_check loaded_store ''products'' [''product_id'']
     ([[(''product_id'', 7)]] @ [(''product_id'', 7)] # [[(''product_id'', 8)]])
     = (Some (Error ''UNIQUE constraint failed''), loaded_store) \<and>
   saved loaded_store = None \<and>
   tables loaded_store =
     fold (\<lambda>r. insert_row ''customers'' (row_values [''customer_id'', ''name''] r))
       [[(''customer_id'', 1), (''name'', 10)]] (tables created_store)"
proof -
  have s: "saved created_store = None" by (simp add: created_store_def)
  from insertData_atomic [OF s loaded_store_run, of "[[(''product_id'', 8)]]"]
    s loaded_store_run(1)
  show ?thesis by simp
qed

end
